theory Spec2Isabelle
  imports Main "HOL-Library.Multiset"
begin

section \<open>merge-nrostats.py: address blocks, the radix tree and the merged rows\<close>

subsection \<open>Values of the script\<close>

text \<open>
  \<^verbatim>\<open>ipaddress.ip_address\<close> returns an \<^verbatim>\<open>IPv4Address\<close> or an \<^verbatim>\<open>IPv6Address\<close>, each
  holding the address as an integer (from \<open>0\<close>, below \<open>2 ^ 32\<close> and below \<open>2 ^ 128\<close>).
\<close>

datatype ipaddr = IPv4Address int | IPv6Address int

text \<open>
  The exceptions that the modelled code can raise. In Python \<^verbatim>\<open>AddressValueError\<close> is a
  subclass of \<^verbatim>\<open>ValueError\<close>; the only handler of the modelled code, the \<^verbatim>\<open>except ValueError\<close>
  around \<^verbatim>\<open>ipaddress.IPv4Network\<close>, is part of \<open>find_prefix_size\<close> below.
\<close>

datatype error = ValueError | AddressValueError

text \<open>
  The text \<^verbatim>\<open>'{}/{}'.format(prefix_addr, prefix_size)\<close> is kept as the pair that it denotes.
\<close>

type_synonym prefix = "ipaddr \<times> int"

text \<open>
  The tuple attached to a node of the radix tree holds strings and integers; it is a list of
  tagged values, \<^verbatim>\<open>info[k]\<close> is \<open>info ! k\<close> and tuple concatenation is \<open>@\<close>.
\<close>

datatype pyval = PyStr string | PyInt int

type_synonym info = "pyval list"

subsection \<open>Arithmetic of \<^verbatim>\<open>add_v4_block_to_radix\<close>\<close>

text \<open>
  \<^verbatim>\<open>int(math.log(addrcount, 2))\<close> for \<open>addrcount > 0\<close>: the truncated binary logarithm. The
  script computes it in floating point; the model takes the exact value.
\<close>

function int_log2 :: "int \<Rightarrow> int" where
  "int_log2 addrcount = (if addrcount < 2 then 0 else 1 + int_log2 (addrcount div 2))"
  by pat_completeness auto
termination
  by (relation "measure nat") auto

declare int_log2.simps [simp del]

text \<open>
  \<^verbatim>\<open>ipaddress.IPv4Network('{}/{}'.format(prefix_addr, prefix_size))\<close> (strict): a
  \<^verbatim>\<open>ValueError\<close> unless the text is an IPv4 address, the length is in \<open>0..32\<close> and no host bit
  of the address is set. The text of an \<^verbatim>\<open>IPv6Address\<close> is never an IPv4 address.
\<close>

fun IPv4Network :: "ipaddr \<Rightarrow> int \<Rightarrow> error + prefix" where
  "IPv4Network (IPv4Address a) prefix_size =
     (if 0 \<le> prefix_size \<and> prefix_size \<le> 32 \<and> a mod 2 ^ nat (32 - prefix_size) = 0
      then Inr (IPv4Address a, prefix_size) else Inl ValueError)"
| "IPv4Network (IPv6Address a) prefix_size = Inl ValueError"

text \<open>
  \<^verbatim>\<open>prefix_addr += used_addrcount\<close>: the address classes build a new address from the sum and
  raise \<^verbatim>\<open>AddressValueError\<close> when it is outside the address space.
\<close>

fun ip_add :: "ipaddr \<Rightarrow> int \<Rightarrow> error + ipaddr" where
  "ip_add (IPv4Address a) n =
     (if a + n < 0 \<or> 2 ^ 32 - 1 < a + n then Inl AddressValueError
      else Inr (IPv4Address (a + n)))"
| "ip_add (IPv6Address a) n =
     (if a + n < 0 \<or> 2 ^ 128 - 1 < a + n then Inl AddressValueError
      else Inr (IPv6Address (a + n)))"

text \<open>
  The inner loop \<^verbatim>\<open>while not prefix_found\<close>: try the prefix length, and on \<^verbatim>\<open>ValueError\<close> try
  the next longer one. Nothing bounds the loop, so not returning is the value \<open>None\<close>.
\<close>

partial_function (option) find_prefix_size :: "ipaddr \<Rightarrow> int \<Rightarrow> int option" where
  "find_prefix_size prefix_addr prefix_size =
     (case IPv4Network prefix_addr prefix_size of
        Inr test_nw \<Rightarrow> Some prefix_size
      | Inl v \<Rightarrow> find_prefix_size prefix_addr (prefix_size + 1))"

declare find_prefix_size.simps [code]

text \<open>
  One pass of the outer loop up to the call of \<^verbatim>\<open>add_prefix_to_radix\<close>: the prefix and
  \<^verbatim>\<open>used_addrcount = int(math.pow(2, 32 - prefix_size))\<close>.
\<close>

definition v4_block :: "ipaddr \<Rightarrow> int \<Rightarrow> (prefix \<times> int) option" where
  "v4_block prefix_addr addrcount =
     Option.bind (find_prefix_size prefix_addr (32 - int_log2 addrcount))
       (\<lambda>prefix_size. Some ((prefix_addr, prefix_size), 2 ^ nat (32 - prefix_size)))"

subsection \<open>The radix tree\<close>

text \<open>
  Modelled from the spec: \<^verbatim>\<open>radix.Radix\<close> (the imported radix-tree library: \<^verbatim>\<open>search_exact\<close>,
  \<^verbatim>\<open>add\<close>, the data of a node and the iteration) is not in the source file. By the spec it is
  a binary trie over the address bits, most significant bit first, with child links for bit 0
  and bit 1; a prefix ends at the node reached after \<open>prefix_length\<close> bits; intermediate nodes
  carry nothing; iteration is pre-order, the 0-branch before the 1-branch, and yields the
  nodes that a prefix was added to. A node holds \<open>None\<close> when no prefix was added there, and
  otherwise the list under the key \<^verbatim>\<open>'info'\<close> of its \<^verbatim>\<open>data\<close> dictionary (empty after \<^verbatim>\<open>add\<close>).
\<close>

datatype trie = Leaf | Node "info list option" trie trie

text \<open>
  One \<^verbatim>\<open>Radix\<close> object accepts prefixes of both families. The key of a prefix starts with
  the family (IPv4 on the 0-branch), followed by the first \<open>prefix_length\<close> bits of the
  address, so the bits of the address after them are not kept; a prefix length outside the
  family's width is a \<^verbatim>\<open>ValueError\<close>.
\<close>

fun addr_bits :: "nat \<Rightarrow> int \<Rightarrow> bool list" where
  "addr_bits 0 a = []"
| "addr_bits (Suc n) a = odd (a div 2 ^ n) # addr_bits n a"

fun prefix_key :: "prefix \<Rightarrow> error + bool list" where
  "prefix_key (IPv4Address a, len) =
     (if 0 \<le> len \<and> len \<le> 32 then Inr (False # take (nat len) (addr_bits 32 a))
      else Inl ValueError)"
| "prefix_key (IPv6Address a, len) =
     (if 0 \<le> len \<and> len \<le> 128 then Inr (True # take (nat len) (addr_bits 128 a))
      else Inl ValueError)"

text \<open>\<^verbatim>\<open>rnode.prefix\<close>: the network address and the length that a key stands for.\<close>

fun bits_val :: "bool list \<Rightarrow> int" where
  "bits_val [] = 0"
| "bits_val (b # bs) = (if b then 2 ^ length bs else 0) + bits_val bs"

fun key_prefix :: "bool list \<Rightarrow> prefix" where
  "key_prefix [] = (IPv4Address 0, 0)"
| "key_prefix (False # bs) = (IPv4Address (bits_val bs * 2 ^ (32 - length bs)), int (length bs))"
| "key_prefix (True # bs) = (IPv6Address (bits_val bs * 2 ^ (128 - length bs)), int (length bs))"

fun lookup :: "trie \<Rightarrow> bool list \<Rightarrow> info list option" where
  "lookup Leaf k = None"
| "lookup (Node d l r) [] = d"
| "lookup (Node d l r) (b # k) = lookup (if b then r else l) k"

fun update :: "trie \<Rightarrow> bool list \<Rightarrow> info list \<Rightarrow> trie" where
  "update Leaf [] v = Node (Some v) Leaf Leaf"
| "update Leaf (b # k) v =
     (if b then Node None Leaf (update Leaf k v) else Node None (update Leaf k v) Leaf)"
| "update (Node d l r) [] v = Node (Some v) l r"
| "update (Node d l r) (b # k) v =
     (if b then Node d l (update r k v) else Node d (update l k v) r)"

text \<open>The iteration, with the key of each node in place of the node.\<close>

fun walk :: "trie \<Rightarrow> (bool list \<times> info list) list" where
  "walk Leaf = []"
| "walk (Node d l r) =
     (case d of None \<Rightarrow> [] | Some infos \<Rightarrow> [([], infos)])
     @ map (\<lambda>(k, infos). (False # k, infos)) (walk l)
     @ map (\<lambda>(k, infos). (True # k, infos)) (walk r)"

text \<open>
  A node reference \<^verbatim>\<open>rnode\<close> is the key of the node. \<^verbatim>\<open>search_exact\<close> returns \<^verbatim>\<open>None\<close> when
  the prefix was not added; \<^verbatim>\<open>add\<close> returns the node of the prefix, new when there was none.
\<close>

definition search_exact :: "trie \<Rightarrow> prefix \<Rightarrow> error + bool list option" where
  "search_exact radix prefix =
     (case prefix_key prefix of
        Inl e \<Rightarrow> Inl e
      | Inr k \<Rightarrow> Inr (case lookup radix k of None \<Rightarrow> None | Some infos \<Rightarrow> Some k))"

definition add :: "trie \<Rightarrow> prefix \<Rightarrow> error + trie \<times> bool list" where
  "add radix prefix =
     (case prefix_key prefix of
        Inl e \<Rightarrow> Inl e
      | Inr k \<Rightarrow> Inr (case lookup radix k of None \<Rightarrow> update radix k [] | Some infos \<Rightarrow> radix, k))"

text \<open>\<^verbatim>\<open>rnode.data.get('info', [])\<close> and \<^verbatim>\<open>rnode.data['info'] = info_arr\<close>.\<close>

definition data_get_info :: "trie \<Rightarrow> bool list \<Rightarrow> info list" where
  "data_get_info radix rnode = (case lookup radix rnode of None \<Rightarrow> [] | Some infos \<Rightarrow> infos)"

definition data_set_info :: "trie \<Rightarrow> bool list \<Rightarrow> info list \<Rightarrow> trie" where
  "data_set_info radix rnode info_arr = update radix rnode info_arr"

text \<open>\<^verbatim>\<open>for rnode in radix\<close> with \<^verbatim>\<open>rnode.prefix\<close> and \<^verbatim>\<open>rnode.data['info']\<close>.\<close>

definition nodes :: "trie \<Rightarrow> (prefix \<times> info list) list" where
  "nodes radix = map (\<lambda>(k, infos). (key_prefix k, infos)) (walk radix)"

subsection \<open>\<^verbatim>\<open>add_prefix_to_radix\<close> and \<^verbatim>\<open>add_v4_block_to_radix\<close>\<close>

text \<open>What the script prints while it fills the trees.\<close>

datatype msg = Warning prefix

text \<open>
  The tree is changed in place and the warning goes to standard output: both are passed in
  and returned. An exception of \<^verbatim>\<open>search_exact\<close> leaves both as they were.
\<close>

definition add_prefix_to_radix ::
  "trie \<Rightarrow> prefix \<Rightarrow> info \<Rightarrow> msg list \<Rightarrow> error + trie \<times> msg list" where
  "add_prefix_to_radix radix prefix prefix_info out =
     (case search_exact radix prefix of
        Inl e \<Rightarrow> Inl e
      | Inr found \<Rightarrow>
          (case (case found of
                   None \<Rightarrow> (case add radix prefix of
                               Inl e \<Rightarrow> Inl e
                             | Inr (radix', rnode) \<Rightarrow> Inr (radix', rnode, out))
                 | Some rnode \<Rightarrow> Inr (radix, rnode, out @ [Warning prefix])) of
             Inl e \<Rightarrow> Inl e
           | Inr (radix', rnode, out') \<Rightarrow>
               (let info_arr = data_get_info radix' rnode;
                    info_arr = info_arr @ [prefix_info]
                in Inr (data_set_info radix' rnode info_arr, out'))))"

text \<open>
  The loop \<^verbatim>\<open>while addrcount > 0\<close>. The result is \<open>None\<close> when the loop does not return, and
  otherwise the tree, the output and the exception that ended the loop, if one did: what was
  added before an exception stays in the tree.
\<close>

partial_function (option) add_v4_block_loop ::
  "trie \<Rightarrow> ipaddr \<Rightarrow> int \<Rightarrow> info \<Rightarrow> msg list \<Rightarrow> (trie \<times> msg list \<times> error option) option" where
  "add_v4_block_loop v4radix prefix_addr addrcount prefix_info out =
     (if addrcount > 0 then
        Option.bind (v4_block prefix_addr addrcount) (\<lambda>(prefix, used_addrcount).
          case add_prefix_to_radix v4radix prefix (prefix_info @ [PyInt used_addrcount]) out of
            Inl e \<Rightarrow> Some (v4radix, out, Some e)
          | Inr (v4radix', out') \<Rightarrow>
              (case ip_add prefix_addr used_addrcount of
                 Inl e \<Rightarrow> Some (v4radix', out', Some e)
               | Inr prefix_addr' \<Rightarrow>
                   add_v4_block_loop v4radix' prefix_addr' (addrcount - used_addrcount)
                     prefix_info out'))
      else Some (v4radix, out, None))"

declare add_v4_block_loop.simps [code]

text \<open>
  \<^verbatim>\<open>ipaddress.ip_address\<close> parses the text of the address; it is a parameter of the model, with
  \<open>None\<close> for its \<^verbatim>\<open>ValueError\<close>.
\<close>

definition add_v4_block_to_radix ::
  "(string \<Rightarrow> ipaddr option) \<Rightarrow> trie \<Rightarrow> string \<Rightarrow> int \<Rightarrow> info \<Rightarrow> msg list
    \<Rightarrow> (trie \<times> msg list \<times> error option) option" where
  "add_v4_block_to_radix ip_address v4radix prefix_addr addrcount prefix_info out =
     (case ip_address prefix_addr of
        None \<Rightarrow> Some (v4radix, out, Some ValueError)
      | Some addr \<Rightarrow> add_v4_block_loop v4radix addr addrcount prefix_info out)"

subsection \<open>The calls that one block leads to\<close>

text \<open>
  The arguments of the calls of \<^verbatim>\<open>add_prefix_to_radix\<close> that the loop makes, in the order of
  the calls: each prefix with its \<^verbatim>\<open>used_addrcount\<close>, after the ones in \<open>emitted\<close>. It is the
  loop above without the tree; \<open>loop_main\<close> below proves that the loop adds exactly these.
\<close>

partial_function (option) v4_block_calls ::
  "ipaddr \<Rightarrow> int \<Rightarrow> (prefix \<times> int) list \<Rightarrow> ((prefix \<times> int) list \<times> error option) option" where
  "v4_block_calls prefix_addr addrcount emitted =
     (if addrcount > 0 then
        Option.bind (v4_block prefix_addr addrcount) (\<lambda>(prefix, used_addrcount).
          case ip_add prefix_addr used_addrcount of
            Inl e \<Rightarrow> Some (emitted @ [(prefix, used_addrcount)], Some e)
          | Inr prefix_addr' \<Rightarrow>
              v4_block_calls prefix_addr' (addrcount - used_addrcount)
                (emitted @ [(prefix, used_addrcount)]))
      else Some (emitted, None))"

declare v4_block_calls.simps [code]

text \<open>The calls of the loop for one record, made one after the other on a tree.\<close>

fun add_all :: "trie \<Rightarrow> (prefix \<times> int) list \<Rightarrow> info \<Rightarrow> msg list \<Rightarrow> error + trie \<times> msg list" where
  "add_all radix [] prefix_info out = Inr (radix, out)"
| "add_all radix ((prefix, used_addrcount) # calls) prefix_info out =
     (case add_prefix_to_radix radix prefix (prefix_info @ [PyInt used_addrcount]) out of
        Inl e \<Rightarrow> Inl e
      | Inr (radix', out') \<Rightarrow> add_all radix' calls prefix_info out')"

text \<open>A sequence of calls of \<^verbatim>\<open>add_prefix_to_radix\<close> on one tree, each with its own tuple.\<close>

fun add_list :: "trie \<Rightarrow> (prefix \<times> info) list \<Rightarrow> msg list \<Rightarrow> error + trie \<times> msg list" where
  "add_list radix [] out = Inr (radix, out)"
| "add_list radix ((prefix, prefix_info) # adds) out =
     (case add_prefix_to_radix radix prefix prefix_info out of
        Inl e \<Rightarrow> Inl e
      | Inr (radix', out') \<Rightarrow> add_list radix' adds out')"

text \<open>The tuples that a sequence of calls attaches to the node with the key \<open>k\<close>, in order.\<close>

definition added :: "bool list \<Rightarrow> (prefix \<times> info) list \<Rightarrow> info list" where
  "added k adds = map snd (filter (\<lambda>x. prefix_key (fst x) = Inr k) adds)"

text \<open>
  The addresses of an IPv4 prefix, and a sequence of IPv4 prefixes that follow each other
  from \<open>lo\<close> to \<open>hi\<close>: each starts where the one before ends, is aligned to its size and
  comes with its size.
\<close>

fun prefix_range :: "prefix \<Rightarrow> int set" where
  "prefix_range (IPv4Address a, len) = {a ..< a + 2 ^ nat (32 - len)}"
| "prefix_range (IPv6Address a, len) = {a ..< a + 2 ^ nat (128 - len)}"

fun prefix_first :: "prefix \<Rightarrow> int" where
  "prefix_first (IPv4Address a, len) = a"
| "prefix_first (IPv6Address a, len) = a"

fun prefix_end :: "prefix \<Rightarrow> int" where
  "prefix_end (IPv4Address a, len) = a + 2 ^ nat (32 - len)"
| "prefix_end (IPv6Address a, len) = a + 2 ^ nat (128 - len)"

fun chain :: "int \<Rightarrow> (prefix \<times> int) list \<Rightarrow> int \<Rightarrow> bool" where
  "chain lo [] hi = (lo = hi)"
| "chain lo (((addr, len), used) # calls) hi =
     (addr = IPv4Address lo \<and> 0 \<le> len \<and> len \<le> 32 \<and> used = 2 ^ nat (32 - len) \<and>
      lo mod used = 0 \<and> chain (lo + used) calls hi)"

subsection \<open>\<^verbatim>\<open>parse_nro_stats\<close>\<close>

text \<open>\<^verbatim>\<open>line.strip(c)\<close> for a single character, and \<^verbatim>\<open>line.split('|')\<close>.\<close>

definition strip :: "char \<Rightarrow> string \<Rightarrow> string" where
  "strip c line = rev (dropWhile (\<lambda>x. x = c) (rev (dropWhile (\<lambda>x. x = c) line)))"

fun split :: "char \<Rightarrow> string \<Rightarrow> string list" where
  "split c [] = [[]]"
| "split c (x # xs) =
     (if x = c then [] # split c xs
      else (case split c xs of [] \<Rightarrow> [[x]] | field # fields \<Rightarrow> (x # field) # fields))"

text \<open>
  The library functions that read text are parameters of the model, each with \<open>None\<close> for its
  \<^verbatim>\<open>ValueError\<close>: \<open>read_int\<close> is \<^verbatim>\<open>int\<close> on a string, \<open>read_address\<close> is
  \<^verbatim>\<open>ipaddress.ip_address\<close>, and \<open>read_radix_address\<close> reads the address of the prefix text
  that the script hands to the radix tree for an IPv6 line.
\<close>

datatype reader = Reader
  (read_int: "string \<Rightarrow> int option")
  (read_address: "string \<Rightarrow> ipaddr option")
  (read_radix_address: "string \<Rightarrow> ipaddr option")

text \<open>The test of the loop body: the line is passed over when it holds.\<close>

definition skipped :: "string list \<Rightarrow> bool" where
  "skipped fields =
     (length fields < 7 \<or> (fields ! 2 \<noteq> ''ipv4'' \<and> fields ! 2 \<noteq> ''ipv6''))"

text \<open>
  The fields of a line: carriage returns are stripped from both ends, then line feeds, and the
  rest is split at every \<^verbatim>\<open>|\<close>.
\<close>

definition line_fields :: "string \<Rightarrow> string list" where
  "line_fields line = split CHR ''|'' (strip (CHR 0x0A) (strip (CHR 0x0D) line))"

text \<open>
  The body of the loop after the test. The state is the two trees and the output; the
  result is \<open>None\<close> when the body does not return, and otherwise the state with the exception
  that left the body, if one did. \<^verbatim>\<open>int(fields[4])\<close> is evaluated for the tuple before the
  protocol is looked at.
\<close>

definition add_fields ::
  "reader \<Rightarrow> string list \<Rightarrow> trie \<Rightarrow> trie \<Rightarrow> msg list
    \<Rightarrow> (trie \<times> trie \<times> msg list \<times> error option) option" where
  "add_fields rd fields v4radix v6radix out =
     (case read_int rd (fields ! 4) of
        None \<Rightarrow> Some (v4radix, v6radix, out, Some ValueError)
      | Some block_size \<Rightarrow>
          (let prefix_info = [PyStr (fields ! 0), PyStr (fields ! 1), PyStr (fields ! 5),
                              PyStr (fields ! 6), PyStr (fields ! 3), PyInt block_size];
               prefix_addr = fields ! 3
           in if fields ! 2 = ''ipv4'' then
                (let addrcount = block_size
                 in map_option (\<lambda>(v4radix', out', e). (v4radix', v6radix, out', e))
                      (add_v4_block_to_radix (read_address rd) v4radix prefix_addr addrcount
                         prefix_info out))
              else if fields ! 2 = ''ipv6'' then
                (let prefix_size = block_size
                 in case read_radix_address rd prefix_addr of
                      None \<Rightarrow> Some (v4radix, v6radix, out, Some ValueError)
                    | Some addr \<Rightarrow>
                        (case add_prefix_to_radix v6radix (addr, prefix_size) prefix_info out of
                           Inl e \<Rightarrow> Some (v4radix, v6radix, out, Some e)
                         | Inr (v6radix', out') \<Rightarrow> Some (v4radix, v6radix', out', None)))
              else Some (v4radix, v6radix, out, None)))"

definition parse_line ::
  "reader \<Rightarrow> string \<Rightarrow> trie \<Rightarrow> trie \<Rightarrow> msg list
    \<Rightarrow> (trie \<times> trie \<times> msg list \<times> error option) option" where
  "parse_line rd line v4radix v6radix out =
     (let fields = line_fields line
      in if skipped fields then Some (v4radix, v6radix, out, None)
         else add_fields rd fields v4radix v6radix out)"

text \<open>
  \<^verbatim>\<open>for line in fd\<close>: the file is the list of its lines, as text. An exception leaves the
  loop, with the trees as they are then.
\<close>

fun parse_nro_stats ::
  "reader \<Rightarrow> string list \<Rightarrow> trie \<Rightarrow> trie \<Rightarrow> msg list
    \<Rightarrow> (trie \<times> trie \<times> msg list \<times> error option) option" where
  "parse_nro_stats rd [] v4radix v6radix out = Some (v4radix, v6radix, out, None)"
| "parse_nro_stats rd (line # fd) v4radix v6radix out =
     (case parse_line rd line v4radix v6radix out of
        None \<Rightarrow> None
      | Some (v4radix', v6radix', out', Some e) \<Rightarrow> Some (v4radix', v6radix', out', Some e)
      | Some (v4radix', v6radix', out', None) \<Rightarrow> parse_nro_stats rd fd v4radix' v6radix' out')"

subsection \<open>The rows that \<^verbatim>\<open>main\<close> writes\<close>

text \<open>
  A row is kept as the arguments of its \<^verbatim>\<open>format\<close> call, in their order: the prefix of the
  node and the values. \<^verbatim>\<open>info[k]\<close> raises \<^verbatim>\<open>IndexError\<close> on a tuple that is too short.
\<close>

datatype row_error = IndexError

type_synonym row = "prefix \<times> pyval list"

definition v4_row :: "prefix \<Rightarrow> info \<Rightarrow> row_error + row" where
  "v4_row prefix info =
     (if length info < 6 then Inl IndexError
      else (let rir = info ! 0; date = info ! 1; country = info ! 2; prefix_status = info ! 3;
                block_start = info ! 4; block_ip_count = info ! 5
            in Inr (prefix, [rir, country, date, prefix_status, block_start, block_ip_count])))"

definition v6_row :: "prefix \<Rightarrow> info \<Rightarrow> row_error + row" where
  "v6_row prefix info =
     (if length info < 4 then Inl IndexError
      else (let rir = info ! 0; date = info ! 1; country = info ! 2; prefix_status = info ! 3
            in Inr (prefix, [rir, country, date, prefix_status])))"

text \<open>
  The two nested loops \<^verbatim>\<open>for rnode in radix: for info in rnode.data['info']\<close>, with the rows
  written so far.
\<close>

fun node_rows :: "(prefix \<Rightarrow> info \<Rightarrow> row_error + row) \<Rightarrow> prefix \<Rightarrow> info list \<Rightarrow> row list
    \<Rightarrow> row_error + row list" where
  "node_rows mk prefix [] written = Inr written"
| "node_rows mk prefix (info # infos) written =
     (case mk prefix info of
        Inl e \<Rightarrow> Inl e
      | Inr r \<Rightarrow> node_rows mk prefix infos (written @ [r]))"

fun radix_rows :: "(prefix \<Rightarrow> info \<Rightarrow> row_error + row) \<Rightarrow> (prefix \<times> info list) list \<Rightarrow> row list
    \<Rightarrow> row_error + row list" where
  "radix_rows mk [] written = Inr written"
| "radix_rows mk ((prefix, infos) # rnodes) written =
     (case node_rows mk prefix infos written of
        Inl e \<Rightarrow> Inl e
      | Inr written' \<Rightarrow> radix_rows mk rnodes written')"

definition write_v4 :: "trie \<Rightarrow> row_error + row list" where
  "write_v4 v4radix = radix_rows v4_row (nodes v4radix) []"

definition write_v6 :: "trie \<Rightarrow> row_error + row list" where
  "write_v6 v6radix = radix_rows v6_row (nodes v6radix) []"

text \<open>
  The part of \<^verbatim>\<open>main\<close> between the downloads and the end: the files of the registries are
  parsed in their order into the same two trees, which start empty. The files are given as
  their lines.
\<close>

fun parse_all ::
  "reader \<Rightarrow> string list list \<Rightarrow> trie \<Rightarrow> trie \<Rightarrow> msg list
    \<Rightarrow> (trie \<times> trie \<times> msg list \<times> error option) option" where
  "parse_all rd [] v4radix v6radix out = Some (v4radix, v6radix, out, None)"
| "parse_all rd (fd # fds) v4radix v6radix out =
     (case parse_nro_stats rd fd v4radix v6radix out of
        None \<Rightarrow> None
      | Some (v4radix', v6radix', out', Some e) \<Rightarrow> Some (v4radix', v6radix', out', Some e)
      | Some (v4radix', v6radix', out', None) \<Rightarrow> parse_all rd fds v4radix' v6radix' out')"

subsection \<open>The rows that the spec asks for\<close>



text \<open>
  A property of all tuples in a tree, and the tuples whose row is the one that the spec asks
  for on a line of \<open>lines\<close>.
\<close>

definition all_infos :: "(info \<Rightarrow> bool) \<Rightarrow> trie \<Rightarrow> bool" where
  "all_infos P radix = (\<forall>k infos. lookup radix k = Some infos \<longrightarrow> (\<forall>info\<in>set infos. P info))"



subsection \<open>What a file adds to the trees\<close>






subsection \<open>Readers for concrete runs\<close>

text \<open>
  A reader for evaluating the model on concrete lines. A string of the model is the list of the
  code points of a Python string, all of them below 256.

  \<open>python_int\<close> is \<^verbatim>\<open>int\<close> on such a string, as CPython 3.11 has it: white space at both
  ends is dropped (the code points 9 to 13, 32, 133 and 160), one sign may come first, the
  digits may be grouped by single underscores, leading zeros are allowed, and a text of more
  than 4300 digits is refused.

  \<open>dotted_quad\<close> is the IPv4 half of \<^verbatim>\<open>ipaddress.ip_address\<close>: exactly four octets, each of
  one to three digits with no leading zero, and none above 255. Of the IPv6 half
  \<open>plain_address\<close> reads the one text \<^verbatim>\<open>2001:db8::\<close>.
\<close>

definition digit :: "char \<Rightarrow> int option" where
  "digit c = (let n = (of_char c :: nat) in if 48 \<le> n \<and> n \<le> 57 then Some (int n - 48) else None)"

fun digits :: "string \<Rightarrow> int \<Rightarrow> int option" where
  "digits [] acc = Some acc"
| "digits (c # cs) acc = (case digit c of None \<Rightarrow> None | Some d \<Rightarrow> digits cs (10 * acc + d))"

definition decimal :: "string \<Rightarrow> int option" where
  "decimal s = (if s = [] then None else digits s 0)"

definition isspace :: "char \<Rightarrow> bool" where
  "isspace c =
     (let n = (of_char c :: nat) in (9 \<le> n \<and> n \<le> 13) \<or> n = 32 \<or> n = 133 \<or> n = 160)"

definition python_int :: "string \<Rightarrow> int option" where
  "python_int s =
     (let t = rev (dropWhile isspace (rev (dropWhile isspace s)));
          (negative, u) =
            (case t of
               [] \<Rightarrow> (False, [])
             | c # cs \<Rightarrow>
                 if c = CHR ''-'' then (True, cs)
                 else if c = CHR ''+'' then (False, cs)
                 else (False, t));
          groups = split CHR ''_'' u
      in if list_ex (\<lambda>g. g = []) groups \<or> 4300 < length (concat groups) then None
         else (case digits (concat groups) 0 of
                 None \<Rightarrow> None
               | Some n \<Rightarrow> Some (if negative then - n else n)))"

definition octet :: "string \<Rightarrow> int option" where
  "octet s =
     (if 3 < length s \<or> (s \<noteq> ''0'' \<and> take 1 s = ''0'') then None else decimal s)"

definition dotted_quad :: "string \<Rightarrow> ipaddr option" where
  "dotted_quad s =
     (case map octet (split CHR ''.'' s) of
        [Some a, Some b, Some c, Some d] \<Rightarrow>
          (if a \<le> 255 \<and> b \<le> 255 \<and> c \<le> 255 \<and> d \<le> 255
           then Some (IPv4Address (((a * 256 + b) * 256 + c) * 256 + d)) else None)
      | _ \<Rightarrow> None)"

definition plain_address :: "string \<Rightarrow> ipaddr option" where
  "plain_address s =
     (if s = ''2001:db8::'' then Some (IPv6Address (536939960 * 2 ^ 96)) else dotted_quad s)"

definition plain_reader :: reader where
  "plain_reader = Reader python_int plain_address plain_address"

text \<open>Two small files of two registries that share the prefix 10.0.0.0/31.\<close>

definition ripencc_lines :: "string list" where
  "ripencc_lines =
     [''2|ripencc|20200101|2|19920101|20191231|+0100'',
      ''ripencc|NL|ipv4|10.0.0.0|3|20200101|allocated'',
      ''ripencc|NL|ipv6|2001:db8::|32|20200101|allocated'']"

definition arin_lines :: "string list" where
  "arin_lines = [''arin|US|ipv4|10.0.0.0|2|20100101|assigned|x'']"

section \<open>Properties\<close>

subsection \<open>The block of one pass of the loop\<close>

lemma int_log2_bounds:
  "0 < n \<Longrightarrow> 0 \<le> int_log2 n \<and> 2 ^ nat (int_log2 n) \<le> n \<and> n < 2 ^ nat (int_log2 n + 1)"
proof (induction n rule: int_log2.induct)
  case (1 n)
  show ?case
  proof (cases "n < 2")
    case True
    with 1 show ?thesis by (simp add: int_log2.simps)
  next
    case False
    then have pos: "0 < n div 2" by simp
    from 1 False pos have ih: "0 \<le> int_log2 (n div 2)"
      "2 ^ nat (int_log2 (n div 2)) \<le> n div 2"
      "n div 2 < 2 ^ nat (int_log2 (n div 2) + 1)"
      by simp_all
    have eq: "int_log2 n = 1 + int_log2 (n div 2)"
      using False by (subst int_log2.simps) simp
    have n1: "nat (1 + int_log2 (n div 2)) = Suc (nat (int_log2 (n div 2)))"
      using ih(1) by simp
    have n2: "nat (1 + int_log2 (n div 2) + 1) = Suc (Suc (nat (int_log2 (n div 2))))"
      using ih(1) by simp
    have n3: "nat (int_log2 (n div 2) + 1) = Suc (nat (int_log2 (n div 2)))"
      using ih(1) by simp
    show ?thesis unfolding eq n1 n2 using ih unfolding n3 by auto
  qed
qed

lemma find_prefix_size_hit:
  "0 \<le> p \<Longrightarrow> p \<le> 32 \<Longrightarrow> a mod 2 ^ nat (32 - p) = 0 \<Longrightarrow>
   find_prefix_size (IPv4Address a) p = Some p"
  by (subst find_prefix_size.simps) simp

lemma find_prefix_size_miss:
  "\<not> (0 \<le> p \<and> p \<le> 32 \<and> a mod 2 ^ nat (32 - p) = 0) \<Longrightarrow>
   find_prefix_size (IPv4Address a) p = find_prefix_size (IPv4Address a) (p + 1)"
  by (subst find_prefix_size.simps) auto

lemma find_prefix_size_v4:
  "p \<le> 32 \<Longrightarrow>
   \<exists>q. find_prefix_size (IPv4Address a) p = Some q \<and> p \<le> q \<and> 0 \<le> q \<and> q \<le> 32 \<and>
       a mod 2 ^ nat (32 - q) = 0 \<and>
       (\<forall>r. p \<le> r \<and> r < q \<and> 0 \<le> r \<longrightarrow> a mod 2 ^ nat (32 - r) \<noteq> 0)"
proof (induction "nat (32 - p)" arbitrary: p rule: less_induct)
  case less
  show ?case
  proof (cases "0 \<le> p \<and> a mod 2 ^ nat (32 - p) = 0")
    case True
    then have "find_prefix_size (IPv4Address a) p = Some p"
      using less.prems by (simp add: find_prefix_size_hit)
    then show ?thesis using True less.prems by (intro exI[of _ p]) simp
  next
    case False
    have lt: "p < 32"
    proof (rule ccontr)
      assume "\<not> p < 32"
      with less.prems have "p = 32" by simp
      with False show False by simp
    qed
    then have "nat (32 - (p + 1)) < nat (32 - p)" "p + 1 \<le> 32" by simp_all
    from less.hyps[OF this] obtain q where
      q1: "find_prefix_size (IPv4Address a) (p + 1) = Some q" and
      q2: "p + 1 \<le> q" and q3: "0 \<le> q" and q4: "q \<le> 32" and
      q5: "a mod 2 ^ nat (32 - q) = 0" and
      q6: "\<forall>r. p + 1 \<le> r \<and> r < q \<and> 0 \<le> r \<longrightarrow> a mod 2 ^ nat (32 - r) \<noteq> 0"
      by (elim exE conjE)
    have step: "find_prefix_size (IPv4Address a) p = Some q"
      using False q1 by (simp add: find_prefix_size_miss)
    have q7: "\<forall>r. p \<le> r \<and> r < q \<and> 0 \<le> r \<longrightarrow> a mod 2 ^ nat (32 - r) \<noteq> 0"
    proof (intro allI impI)
      fix r assume r: "p \<le> r \<and> r < q \<and> 0 \<le> r"
      show "a mod 2 ^ nat (32 - r) \<noteq> 0"
      proof (cases "r = p")
        case True
        with False r show ?thesis by simp
      next
        case False
        with r have "p + 1 \<le> r \<and> r < q \<and> 0 \<le> r" by simp
        then show ?thesis by (rule q6[rule_format])
      qed
    qed
    have "p \<le> q" using q2 by simp
    then show ?thesis using step q3 q4 q5 q7 by (intro exI[of _ q] conjI)
  qed
qed

lemma v4_block_v4:
  assumes "0 < c"
  shows "\<exists>q. v4_block (IPv4Address a) c = Some ((IPv4Address a, q), 2 ^ nat (32 - q)) \<and>
           0 \<le> q \<and> q \<le> 32 \<and> 2 ^ nat (32 - q) \<le> c \<and> a mod 2 ^ nat (32 - q) = 0 \<and>
           (\<forall>k. k \<le> 32 \<and> 2 ^ k \<le> c \<and> a mod 2 ^ k = 0 \<longrightarrow> (2::int) ^ k \<le> 2 ^ nat (32 - q))"
proof -
  from int_log2_bounds[OF assms] have lg1: "0 \<le> int_log2 c" and lg2: "2 ^ nat (int_log2 c) \<le> c"
    and lg3: "c < 2 ^ nat (int_log2 c + 1)" by simp_all
  define p where "p = 32 - int_log2 c"
  have p32: "p \<le> 32" using lg1 by (simp add: p_def)
  from find_prefix_size_v4[OF p32, of a] obtain q where
    q1: "find_prefix_size (IPv4Address a) p = Some q" and q2: "p \<le> q" and q3: "0 \<le> q"
    and q4: "q \<le> 32" and q5: "a mod 2 ^ nat (32 - q) = 0"
    and q6: "\<forall>r. p \<le> r \<and> r < q \<and> 0 \<le> r \<longrightarrow> a mod 2 ^ nat (32 - r) \<noteq> 0"
    by (elim exE conjE)
  have le: "(2::int) ^ nat (32 - q) \<le> c"
  proof -
    have "nat (32 - q) \<le> nat (int_log2 c)" using q2 by (simp add: p_def)
    then have "(2::int) ^ nat (32 - q) \<le> 2 ^ nat (int_log2 c)"
      by (rule power_increasing) simp
    then show ?thesis using lg2 by (rule order_trans)
  qed
  have mx: "\<forall>k. k \<le> 32 \<and> 2 ^ k \<le> c \<and> a mod 2 ^ k = 0 \<longrightarrow> (2::int) ^ k \<le> 2 ^ nat (32 - q)"
  proof (intro allI impI)
    fix k :: nat assume k: "k \<le> 32 \<and> 2 ^ k \<le> c \<and> a mod 2 ^ k = 0"
    then have k1: "k \<le> 32" and k2: "2 ^ k \<le> c" and k3: "a mod 2 ^ k = 0" by simp_all
    have "(2::int) ^ k < 2 ^ nat (int_log2 c + 1)" using k2 lg3 by (rule le_less_trans)
    then have "k < nat (int_log2 c + 1)" by (simp add: power_strict_increasing_iff)
    then have kl: "int k \<le> int_log2 c" using lg1 by simp
    define r where "r = 32 - int k"
    have r1: "p \<le> r" using kl by (simp add: p_def r_def)
    have r2: "0 \<le> r" using k1 by (simp add: r_def)
    have "nat (32 - r) = k" by (simp add: r_def)
    with k3 have r3: "a mod 2 ^ nat (32 - r) = 0" by simp
    have "\<not> r < q"
    proof
      assume "r < q"
      with r1 r2 have "p \<le> r \<and> r < q \<and> 0 \<le> r" by simp
      then have "a mod 2 ^ nat (32 - r) \<noteq> 0" by (rule q6[rule_format])
      with r3 show False by simp
    qed
    then have "k \<le> nat (32 - q)" by (simp add: r_def)
    then show "(2::int) ^ k \<le> 2 ^ nat (32 - q)" by (rule power_increasing) simp
  qed
  have "v4_block (IPv4Address a) c = Some ((IPv4Address a, q), 2 ^ nat (32 - q))"
    using q1 by (simp add: v4_block_def p_def)
  then show ?thesis using q3 q4 le q5 mx by (intro exI[of _ q] conjI)
qed

lemma lookup_update_same: "lookup (update t k v) k = Some v"
  by (induction t k v rule: update.induct) auto

lemma update_update_same: "update (update t k v) k w = update t k w"
  by (induction t k v rule: update.induct) auto

lemma add_prefix_to_radix_key:
  assumes "prefix_key prefix = Inr k"
  shows "add_prefix_to_radix radix prefix prefix_info out =
           Inr (update radix k (data_get_info radix k @ [prefix_info]),
                if lookup radix k = None then out else out @ [Warning prefix])"
proof (cases "lookup radix k")
  case None
  with assms show ?thesis
    by (simp add: add_prefix_to_radix_def search_exact_def add_def data_get_info_def
        data_set_info_def lookup_update_same update_update_same)
next
  case (Some infos)
  with assms show ?thesis
    by (simp add: add_prefix_to_radix_def search_exact_def data_get_info_def data_set_info_def)
qed

lemma aligned_within:
  assumes "0 \<le> a" "a < 2 ^ 32" "j \<le> 32" "a mod 2 ^ j = 0"
  shows "a + 2 ^ j \<le> (2::int) ^ 32"
proof -
  from assms(4) obtain m where m: "a = 2 ^ j * m" by (auto simp: mod_eq_0_iff_dvd)
  have p: "(2::int) ^ 32 = 2 ^ j * 2 ^ (32 - j)" using assms(3) by (simp flip: power_add)
  have "2 ^ j * m < (2::int) ^ j * 2 ^ (32 - j)" using assms(2) unfolding m p[symmetric] .
  then have "m < 2 ^ (32 - j)" by simp
  then have "m + 1 \<le> 2 ^ (32 - j)" by simp
  then have le: "(2::int) ^ j * (m + 1) \<le> 2 ^ j * 2 ^ (32 - j)" by (intro mult_left_mono) simp_all
  have "a + 2 ^ j = 2 ^ j * (m + 1)" unfolding m by (simp add: algebra_simps)
  also note le
  also have "(2::int) ^ j * 2 ^ (32 - j) = 2 ^ 32" by (rule p[symmetric])
  finally show ?thesis .
qed

lemma add_prefix_to_radix_v4:
  assumes "0 \<le> len" "len \<le> 32"
  shows "\<exists>radix' out'. add_prefix_to_radix radix (IPv4Address a, len) prefix_info out = Inr (radix', out')"
proof -
  have "prefix_key (IPv4Address a, len) = Inr (False # take (nat len) (addr_bits 32 a))"
    using assms by simp
  from add_prefix_to_radix_key[OF this] show ?thesis by (intro exI)
qed

lemma loop_main:
  assumes "0 \<le> a" "a < 2 ^ 32" "0 \<le> c"
  shows "\<exists>calls radix' out'.
           v4_block_calls (IPv4Address a) c emitted =
             Some (emitted @ calls, if 0 < c \<and> 2 ^ 32 \<le> a + c then Some AddressValueError else None) \<and>
           chain a calls (min (a + c) (2 ^ 32)) \<and>
           add_all radix calls prefix_info out = Inr (radix', out') \<and>
           add_v4_block_loop radix (IPv4Address a) c prefix_info out =
             Some (radix', out', if 0 < c \<and> 2 ^ 32 \<le> a + c then Some AddressValueError else None)"
  using assms
proof (induction "nat c" arbitrary: a c emitted radix out rule: less_induct)
  case less
  show ?case
  proof (cases "0 < c")
    case False
    with less.prems have c0: "c = 0" by simp
    have 1: "v4_block_calls (IPv4Address a) c emitted = Some (emitted, None)"
      using c0 by (subst v4_block_calls.simps) simp
    have 2: "add_v4_block_loop radix (IPv4Address a) c prefix_info out = Some (radix, out, None)"
      using c0 by (subst add_v4_block_loop.simps) simp
    have 3: "min (a + c) (2 ^ 32) = a" using c0 less.prems by simp
    show ?thesis unfolding 1 2 3 using c0 by (intro exI[of _ "[]"] exI[of _ radix] exI[of _ out]) simp
  next
    case True
    from v4_block_v4[OF True, of a] obtain q where
      q1: "v4_block (IPv4Address a) c = Some ((IPv4Address a, q), 2 ^ nat (32 - q))" and
      q2: "0 \<le> q" and q3: "q \<le> 32" and q4: "2 ^ nat (32 - q) \<le> c" and
      q5: "a mod 2 ^ nat (32 - q) = 0"
      by (elim exE conjE)
    define b :: int where "b = 2 ^ nat (32 - q)"
    have bpos: "0 < b" by (simp add: b_def)
    have bc: "b \<le> c" using q4 by (simp add: b_def)
    have bmod: "a mod b = 0" using q5 by (simp add: b_def)
    have blk: "v4_block (IPv4Address a) c = Some ((IPv4Address a, q), b)"
      using q1 by (simp add: b_def)
    have "nat (32 - q) \<le> 32" using q2 by simp
    from aligned_within[OF less.prems(1,2) this q5]
    have within: "a + b \<le> 2 ^ 32" by (simp add: b_def)
    from add_prefix_to_radix_v4[OF q2 q3, of radix a "prefix_info @ [PyInt b]" out] obtain r1 o1 where add1:
      "add_prefix_to_radix radix (IPv4Address a, q) (prefix_info @ [PyInt b]) out = Inr (r1, o1)"
      by (elim exE)
    have ch1: "\<And>rest hi. chain a (((IPv4Address a, q), b) # rest) hi = chain (a + b) rest hi"
      using q2 q3 bmod by (simp add: b_def)
    show ?thesis
    proof (cases "a + b = 2 ^ 32")
      case True
      have ipa: "ip_add (IPv4Address a) b = Inl AddressValueError" using True by simp
      have 1: "v4_block_calls (IPv4Address a) c emitted =
                 Some (emitted @ [((IPv4Address a, q), b)], Some AddressValueError)"
        using \<open>0 < c\<close> by (subst v4_block_calls.simps) (simp add: blk ipa del: ip_add.simps)
      have 2: "add_v4_block_loop radix (IPv4Address a) c prefix_info out =
                 Some (r1, o1, Some AddressValueError)"
        using \<open>0 < c\<close> by (subst add_v4_block_loop.simps) (simp add: blk ipa add1 del: ip_add.simps)
      have 4: "2 ^ 32 \<le> a + c" using True bc by simp
      then have 3: "min (a + c) (2 ^ 32) = 2 ^ 32" by simp
      have 5: "chain a [((IPv4Address a, q), b)] (2 ^ 32)" unfolding ch1 using True by simp
      have 6: "add_all radix [((IPv4Address a, q), b)] prefix_info out = Inr (r1, o1)"
        by (simp add: add1)
      have e: "(if 0 < c \<and> 2 ^ 32 \<le> a + c then Some AddressValueError else None) = Some AddressValueError"
        using \<open>0 < c\<close> 4 by simp
      show ?thesis unfolding e 3 using 1 2 5 6
        by (intro exI[of _ "[((IPv4Address a, q), b)]"] exI[of _ r1] exI[of _ o1] conjI)
    next
      case False
      with within have lt: "a + b < 2 ^ 32" by simp
      have ipa: "ip_add (IPv4Address a) b = Inr (IPv4Address (a + b))"
        using lt less.prems(1) bpos by simp
      have m: "nat (c - b) < nat c" using bpos True by simp
      have p1: "0 \<le> a + b" using less.prems(1) bpos by simp
      have p2: "0 \<le> c - b" using bc by simp
      define E where "E = (if 0 < c \<and> 2 ^ 32 \<le> a + c then Some AddressValueError else None)"
      have e: "(if 0 < c - b \<and> 2 ^ 32 \<le> a + c then Some AddressValueError else None) = E"
        using lt True by (auto simp: E_def)
      have s: "a + b + (c - b) = a + c" by simp
      from less.hyps[OF m p1 lt p2, of "emitted @ [((IPv4Address a, q), b)]" r1 o1]
      obtain calls r2 o2 where
        ih1: "v4_block_calls (IPv4Address (a + b)) (c - b) (emitted @ [((IPv4Address a, q), b)]) =
           Some ((emitted @ [((IPv4Address a, q), b)]) @ calls, E)" and
        ih2: "chain (a + b) calls (min (a + c) (2 ^ 32))" and
        ih3: "add_all r1 calls prefix_info o1 = Inr (r2, o2)" and
        ih4: "add_v4_block_loop r1 (IPv4Address (a + b)) (c - b) prefix_info o1 = Some (r2, o2, E)"
        unfolding s e by (elim exE conjE)
      have 1: "v4_block_calls (IPv4Address a) c emitted =
                 Some (emitted @ (((IPv4Address a, q), b) # calls), E)"
        using \<open>0 < c\<close> ih1 by (subst v4_block_calls.simps) (simp add: blk ipa del: ip_add.simps)
      have 2: "add_v4_block_loop radix (IPv4Address a) c prefix_info out = Some (r2, o2, E)"
        using \<open>0 < c\<close> ih4 by (subst add_v4_block_loop.simps) (simp add: blk ipa add1 del: ip_add.simps)
      have 5: "chain a (((IPv4Address a, q), b) # calls) (min (a + c) (2 ^ 32))"
        unfolding ch1 by (rule ih2)
      have 6: "add_all radix (((IPv4Address a, q), b) # calls) prefix_info out = Inr (r2, o2)"
        by (simp add: add1 ih3)
      show ?thesis unfolding E_def[symmetric] using 1 5 6 2
        by (intro exI[of _ "((IPv4Address a, q), b) # calls"] exI[of _ r2] exI[of _ o2] conjI)
    qed
  qed
qed

lemma chain_bounds:
  "chain lo calls hi \<Longrightarrow>
   lo \<le> hi \<and> (\<forall>x\<in>set calls. lo \<le> prefix_first (fst x) \<and> prefix_end (fst x) \<le> hi \<and>
      prefix_range (fst x) = {prefix_first (fst x) ..< prefix_end (fst x)} \<and>
      prefix_first (fst x) < prefix_end (fst x))"
proof (induction calls arbitrary: lo)
  case Nil
  then show ?case by simp
next
  case (Cons x calls)
  obtain addr len used where x: "x = ((addr, len), used)" by (cases x) auto
  from Cons.prems have h: "addr = IPv4Address lo" "used = 2 ^ nat (32 - len)"
    "chain (lo + used) calls hi" by (auto simp: x)
  have pos: "0 < used" by (simp add: h(2))
  from Cons.IH[OF h(3)] have ih1: "lo + used \<le> hi" and
    ih2: "\<forall>y\<in>set calls. lo + used \<le> prefix_first (fst y) \<and> prefix_end (fst y) \<le> hi \<and>
      prefix_range (fst y) = {prefix_first (fst y) ..< prefix_end (fst y)} \<and>
      prefix_first (fst y) < prefix_end (fst y)" by simp_all
  have hd: "prefix_first (fst x) = lo" "prefix_end (fst x) = lo + used"
    "prefix_range (fst x) = {lo ..< lo + used}" by (simp_all add: x h(1,2))
  show ?case using pos ih1 ih2 hd by auto
qed

lemma chain_union:
  "chain lo calls hi \<Longrightarrow> (\<Union>x\<in>set calls. prefix_range (fst x)) = {lo ..< hi}"
proof (induction calls arbitrary: lo)
  case Nil
  then show ?case by simp
next
  case (Cons x calls)
  obtain addr len used where x: "x = ((addr, len), used)" by (cases x) auto
  from Cons.prems have h: "addr = IPv4Address lo" "used = 2 ^ nat (32 - len)"
    "chain (lo + used) calls hi" by (auto simp: x)
  have pos: "0 < used" by (simp add: h(2))
  from chain_bounds[OF h(3)] have le: "lo + used \<le> hi" by simp
  have hd: "prefix_range (fst x) = {lo ..< lo + used}" by (simp add: x h(1,2))
  have "(\<Union>y\<in>set (x # calls). prefix_range (fst y)) = {lo ..< lo + used} \<union> {lo + used ..< hi}"
    using Cons.IH[OF h(3)] hd by simp
  also have "\<dots> = {lo ..< hi}" using pos le by (intro ivl_disj_un_two) simp_all
  finally show ?case .
qed

lemma chain_sorted:
  "chain lo calls hi \<Longrightarrow>
   sorted_wrt (\<lambda>x y. prefix_end (fst x) \<le> prefix_first (fst y)) calls"
proof (induction calls arbitrary: lo)
  case Nil
  then show ?case by simp
next
  case (Cons x calls)
  obtain addr len used where x: "x = ((addr, len), used)" by (cases x) auto
  from Cons.prems have h: "addr = IPv4Address lo" "used = 2 ^ nat (32 - len)"
    "chain (lo + used) calls hi" by (auto simp: x)
  have hd: "prefix_end (fst x) = lo + used" by (simp add: x h(1,2))
  from chain_bounds[OF h(3)] have "\<forall>y\<in>set calls. lo + used \<le> prefix_first (fst y)" by simp
  then show ?case using Cons.IH[OF h(3)] hd by simp
qed

lemma chain_aligned:
  "chain lo calls hi \<Longrightarrow>
   \<forall>x\<in>set calls. \<exists>a len. x = ((IPv4Address a, len), 2 ^ nat (32 - len)) \<and> 0 \<le> len \<and> len \<le> 32 \<and>
      a mod 2 ^ nat (32 - len) = 0"
proof (induction calls arbitrary: lo)
  case Nil
  then show ?case by simp
next
  case (Cons x calls)
  obtain addr len used where x: "x = ((addr, len), used)" by (cases x) auto
  from Cons.prems have h: "addr = IPv4Address lo" "used = 2 ^ nat (32 - len)" "0 \<le> len" "len \<le> 32"
    "lo mod used = 0" "chain (lo + used) calls hi" by (auto simp: x)
  have "\<exists>a l. x = ((IPv4Address a, l), 2 ^ nat (32 - l)) \<and> 0 \<le> l \<and> l \<le> 32 \<and>
      a mod 2 ^ nat (32 - l) = 0"
    using h by (intro exI[of _ lo] exI[of _ len]) (simp add: x)
  then show ?case using Cons.IH[OF h(6)] by simp
qed

lemma chain_sum:
  "chain lo calls hi \<Longrightarrow> sum_list (map snd calls) = hi - lo"
proof (induction calls arbitrary: lo)
  case Nil
  then show ?case by simp
next
  case (Cons x calls)
  obtain addr len used where x: "x = ((addr, len), used)" by (cases x) auto
  from Cons.prems have h: "chain (lo + used) calls hi" by (auto simp: x)
  from Cons.IH[OF h] show ?case by (simp add: x)
qed

lemma pow2_dvd_bound:
  fixes a :: int
  assumes "0 < a" "a < 2 ^ 32" "a mod 2 ^ k = 0"
  shows "k \<le> (32::nat)"
proof (rule ccontr)
  assume "\<not> k \<le> 32"
  then have "32 \<le> k" by simp
  then have "(2::int) ^ 32 \<le> 2 ^ k" by (rule power_increasing) simp
  with assms(2) have lt: "a < 2 ^ k" by (rule less_le_trans)
  with assms(1) have "a mod 2 ^ k = a" by simp
  with assms(1,3) show False by simp
qed

lemma pow2_le_bound:
  assumes "(2::int) ^ k \<le> c" "c < 2 ^ 33"
  shows "k \<le> (32::nat)"
proof -
  have one: "(1::int) < 2" by simp
  from assms have "(2::int) ^ k < 2 ^ 33" by (rule le_less_trans)
  with one have "k < 33" by (rule power_less_imp_less_exp)
  then show ?thesis by simp
qed

text \<open>
  Claim C2, as amended. In every pass of the loop of \<^verbatim>\<open>add_v4_block_to_radix\<close>, at an IPv4
  address \<open>a\<close> with a remaining count \<open>c > 0\<close>, the block handed to \<^verbatim>\<open>add_prefix_to_radix\<close> has
  the size \<open>b = 2 ^ (32 - prefix_size)\<close> with \<open>prefix_size\<close> in \<open>0..32\<close>, \<open>b \<le> c\<close>, \<open>a\<close> is a
  multiple of \<open>b\<close>, and \<open>b\<close> is the largest power of two up to \<open>2 ^ 32\<close> with these two
  properties. The bound \<open>2 ^ 32\<close> only matters at the address 0 with a count from \<open>2 ^ 33\<close>.
\<close>

theorem v4_block_largest:
  assumes "0 \<le> a" "a < 2 ^ 32" "0 < c"
  shows "\<exists>q b. v4_block (IPv4Address a) c = Some ((IPv4Address a, q), b) \<and>
           0 \<le> q \<and> q \<le> 32 \<and> b = 2 ^ nat (32 - q) \<and> b \<le> c \<and> a mod b = 0 \<and>
           (\<forall>k. k \<le> 32 \<and> 2 ^ k \<le> c \<and> a mod 2 ^ k = 0 \<longrightarrow> 2 ^ k \<le> b) \<and>
           (a \<noteq> 0 \<or> c < 2 ^ 33 \<longrightarrow> (\<forall>k. 2 ^ k \<le> c \<and> a mod 2 ^ k = 0 \<longrightarrow> 2 ^ k \<le> b))"
proof -
  from v4_block_v4[OF assms(3), of a] obtain q where
    q1: "v4_block (IPv4Address a) c = Some ((IPv4Address a, q), 2 ^ nat (32 - q))" and
    q2: "0 \<le> q" and q3: "q \<le> 32" and q4: "2 ^ nat (32 - q) \<le> c" and
    q5: "a mod 2 ^ nat (32 - q) = 0" and
    q6: "\<forall>k. k \<le> 32 \<and> 2 ^ k \<le> c \<and> a mod 2 ^ k = 0 \<longrightarrow> (2::int) ^ k \<le> 2 ^ nat (32 - q)"
    by (elim exE conjE)
  have q7: "a \<noteq> 0 \<or> c < 2 ^ 33 \<longrightarrow>
      (\<forall>k. 2 ^ k \<le> c \<and> a mod 2 ^ k = 0 \<longrightarrow> (2::int) ^ k \<le> 2 ^ nat (32 - q))"
  proof (intro impI allI)
    fix k :: nat
    assume d: "a \<noteq> 0 \<or> c < 2 ^ 33" and k: "2 ^ k \<le> c \<and> a mod 2 ^ k = 0"
    from d have "k \<le> 32"
    proof
      assume "a \<noteq> 0"
      with assms(1) have "0 < a" by simp
      from pow2_dvd_bound[OF this assms(2)] k show ?thesis by simp
    next
      assume c: "c < 2 ^ 33"
      from k have "2 ^ k \<le> c" by simp
      then show ?thesis using c by (rule pow2_le_bound)
    qed
    with k have "k \<le> 32 \<and> 2 ^ k \<le> c \<and> a mod 2 ^ k = 0" by simp
    then show "(2::int) ^ k \<le> 2 ^ nat (32 - q)" by (rule q6[rule_format])
  qed
  show ?thesis
    using q1 q2 q3 q4 q5 q6 q7 by (intro exI[of _ q] exI[of _ "2 ^ nat (32 - q)"] conjI refl)
qed

theorem v4_block_largest_witness:
  "\<exists>q b. v4_block (IPv4Address 167772160) 3 = Some ((IPv4Address 167772160, q), b) \<and>
           0 \<le> q \<and> q \<le> 32 \<and> b = 2 ^ nat (32 - q) \<and> b \<le> 3 \<and> 167772160 mod b = 0 \<and>
           (\<forall>k. k \<le> 32 \<and> 2 ^ k \<le> (3::int) \<and> (167772160::int) mod 2 ^ k = 0 \<longrightarrow> 2 ^ k \<le> b) \<and>
           ((167772160::int) \<noteq> 0 \<or> (3::int) < 2 ^ 33 \<longrightarrow>
              (\<forall>k. 2 ^ k \<le> (3::int) \<and> (167772160::int) mod 2 ^ k = 0 \<longrightarrow> 2 ^ k \<le> b))"
  using v4_block_largest[of 167772160 3] by simp

text \<open>
  Claim C2 as stated fails at the address 0.0.0.0 with the count \<open>2 ^ 33\<close>: \<open>2 ^ 33\<close> is a
  power of two up to the count and 0 is a multiple of it, and the block has the size \<open>2 ^ 32\<close>.
\<close>

theorem v4_block_largest_counterexample:
  "v4_block (IPv4Address 0) (2 ^ 33) = Some ((IPv4Address 0, 0), 2 ^ 32) \<and>
   (2::int) ^ 33 \<le> 2 ^ 33 \<and> (0::int) mod 2 ^ 33 = 0 \<and> \<not> (2::int) ^ 33 \<le> 2 ^ 32"
  by code_simp

text \<open>
  Claim C10. For every IPv4 start address and every count of at least 1,
  \<^verbatim>\<open>add_v4_block_to_radix\<close> ends: the search of the inner loop returns a prefix length of at
  most 32, so every pass emits a block of at least one and at most \<open>addrcount\<close> addresses, and
  the function returns, normally or with the \<^verbatim>\<open>AddressValueError\<close> of the address addition.
\<close>

theorem add_v4_block_to_radix_terminates:
  assumes "ip_address prefix_addr = Some (IPv4Address a)" "0 \<le> a" "a < 2 ^ 32" "1 \<le> addrcount"
  shows "(\<exists>prefix_size used_addrcount.
            find_prefix_size (IPv4Address a) (32 - int_log2 addrcount) = Some prefix_size \<and>
            prefix_size \<le> 32 \<and>
            v4_block (IPv4Address a) addrcount = Some ((IPv4Address a, prefix_size), used_addrcount) \<and>
            1 \<le> used_addrcount \<and> used_addrcount \<le> addrcount) \<and>
         (\<exists>radix' out' e.
            add_v4_block_to_radix ip_address radix prefix_addr addrcount prefix_info out =
              Some (radix', out', e) \<and>
            (e = None \<or> e = Some AddressValueError))"
proof -
  have pos: "0 < addrcount" using assms(4) by simp
  from v4_block_v4[OF pos, of a] obtain q where
    q1: "v4_block (IPv4Address a) addrcount = Some ((IPv4Address a, q), 2 ^ nat (32 - q))" and
    q3: "q \<le> 32" and q4: "2 ^ nat (32 - q) \<le> addrcount"
    by (elim exE conjE)
  have f: "find_prefix_size (IPv4Address a) (32 - int_log2 addrcount) = Some q"
    using q1 by (auto simp: v4_block_def Option.bind_eq_Some_conv)
  have one: "(1::int) \<le> 2 ^ nat (32 - q)" by simp
  have first: "\<exists>prefix_size used_addrcount.
            find_prefix_size (IPv4Address a) (32 - int_log2 addrcount) = Some prefix_size \<and>
            prefix_size \<le> 32 \<and>
            v4_block (IPv4Address a) addrcount = Some ((IPv4Address a, prefix_size), used_addrcount) \<and>
            1 \<le> used_addrcount \<and> used_addrcount \<le> addrcount"
    using f q3 q1 one q4 by (intro exI[of _ q] exI[of _ "2 ^ nat (32 - q)"] conjI)
  have c0: "0 \<le> addrcount" using assms(4) by simp
  from loop_main[OF assms(2,3) c0, of "[]" radix prefix_info out] obtain calls radix' out' where
    l: "add_v4_block_loop radix (IPv4Address a) addrcount prefix_info out =
          Some (radix', out',
            if 0 < addrcount \<and> 2 ^ 32 \<le> a + addrcount then Some AddressValueError else None)"
    by (elim exE conjE)
  define e where "e = (if 0 < addrcount \<and> 2 ^ 32 \<le> a + addrcount then Some AddressValueError else None)"
  have e: "e = None \<or> e = Some AddressValueError" by (simp add: e_def)
  have r: "add_v4_block_to_radix ip_address radix prefix_addr addrcount prefix_info out =
             Some (radix', out', e)"
    using l assms(1) by (simp add: add_v4_block_to_radix_def e_def)
  have second: "\<exists>radix' out' e.
            add_v4_block_to_radix ip_address radix prefix_addr addrcount prefix_info out =
              Some (radix', out', e) \<and>
            (e = None \<or> e = Some AddressValueError)"
    using r e by (intro exI[of _ radix'] exI[of _ out'] exI[of _ e] conjI)
  from first second show ?thesis by (rule conjI)
qed

lemma plain_address_10: "plain_address ''10.0.0.0'' = Some (IPv4Address 167772160)"
  by code_simp

theorem add_v4_block_to_radix_terminates_witness:
  "(\<exists>prefix_size used_addrcount.
      find_prefix_size (IPv4Address 167772160) (32 - int_log2 3) = Some prefix_size \<and>
      prefix_size \<le> 32 \<and>
      v4_block (IPv4Address 167772160) 3 = Some ((IPv4Address 167772160, prefix_size), used_addrcount) \<and>
      1 \<le> used_addrcount \<and> used_addrcount \<le> 3) \<and>
   (\<exists>radix' out' e.
      add_v4_block_to_radix plain_address Leaf ''10.0.0.0'' 3 [] [] = Some (radix', out', e) \<and>
      (e = None \<or> e = Some AddressValueError))"
  using add_v4_block_to_radix_terminates[where ip_address = plain_address and
      prefix_addr = "''10.0.0.0''" and a = 167772160 and addrcount = 3 and radix = Leaf and
      prefix_info = "[]" and out = "[]"] plain_address_10
  by simp

lemma chain_nonempty: "chain lo calls hi \<Longrightarrow> lo \<noteq> hi \<Longrightarrow> calls \<noteq> []"
  by (cases calls) auto

lemma sorted_disjoint:
  assumes "sorted_wrt (\<lambda>x y. prefix_end (fst x) \<le> prefix_first (fst y)) calls"
    and "\<forall>x\<in>set calls. prefix_range (fst x) = {prefix_first (fst x) ..< prefix_end (fst x)}"
    and "i < j" "j < length calls"
  shows "prefix_end (fst (calls ! i)) \<le> prefix_first (fst (calls ! j))"
    and "prefix_range (fst (calls ! i)) \<inter> prefix_range (fst (calls ! j)) = {}"
proof -
  from assms(1,3,4) show le: "prefix_end (fst (calls ! i)) \<le> prefix_first (fst (calls ! j))"
    by (simp add: sorted_wrt_iff_nth_less)
  have i: "calls ! i \<in> set calls" using assms(3,4) by simp
  have j: "calls ! j \<in> set calls" using assms(4) by simp
  from assms(2) i have ri: "prefix_range (fst (calls ! i)) =
      {prefix_first (fst (calls ! i)) ..< prefix_end (fst (calls ! i))}" by (rule bspec)
  from assms(2) j have rj: "prefix_range (fst (calls ! j)) =
      {prefix_first (fst (calls ! j)) ..< prefix_end (fst (calls ! j))}" by (rule bspec)
  show "prefix_range (fst (calls ! i)) \<inter> prefix_range (fst (calls ! j)) = {}"
    unfolding ri rj using le by auto
qed

lemma loop_v4:
  assumes "ip_address prefix_addr = Some (IPv4Address a)" "0 \<le> a" "a < 2 ^ 32" "0 \<le> c"
  shows "\<exists>calls radix' out'.
           v4_block_calls (IPv4Address a) c [] =
             Some (calls, if 0 < c \<and> 2 ^ 32 \<le> a + c then Some AddressValueError else None) \<and>
           chain a calls (min (a + c) (2 ^ 32)) \<and>
           add_all radix calls prefix_info out = Inr (radix', out') \<and>
           add_v4_block_to_radix ip_address radix prefix_addr c prefix_info out =
             Some (radix', out', if 0 < c \<and> 2 ^ 32 \<le> a + c then Some AddressValueError else None)"
proof -
  from loop_main[OF assms(2,3,4), of "[]" radix prefix_info out] obtain calls radix' out' where
    1: "v4_block_calls (IPv4Address a) c [] =
             Some ([] @ calls, if 0 < c \<and> 2 ^ 32 \<le> a + c then Some AddressValueError else None)" and
    2: "chain a calls (min (a + c) (2 ^ 32))" and
    3: "add_all radix calls prefix_info out = Inr (radix', out')" and
    4: "add_v4_block_loop radix (IPv4Address a) c prefix_info out =
             Some (radix', out', if 0 < c \<and> 2 ^ 32 \<le> a + c then Some AddressValueError else None)"
    by (elim exE conjE)
  from 1 have 1: "v4_block_calls (IPv4Address a) c [] =
             Some (calls, if 0 < c \<and> 2 ^ 32 \<le> a + c then Some AddressValueError else None)"
    by simp
  from 4 assms(1) have 4: "add_v4_block_to_radix ip_address radix prefix_addr c prefix_info out =
             Some (radix', out', if 0 < c \<and> 2 ^ 32 \<le> a + c then Some AddressValueError else None)"
    by (simp add: add_v4_block_to_radix_def)
  from 1 2 3 4 show ?thesis by (intro exI[of _ calls] exI[of _ radix'] exI[of _ out'] conjI)
qed

text \<open>
  Claim C1, as amended. For every IPv4 start address and every count \<open>> 0\<close> with
  \<open>start + count \<le> 2 ^ 32\<close>, the prefixes that \<^verbatim>\<open>add_v4_block_to_radix\<close> hands to
  \<^verbatim>\<open>add_prefix_to_radix\<close> are aligned IPv4 prefixes, the union of their ranges is
  \<open>[start, start + count)\<close>, each ends before or where the next starts (so they are in
  ascending order and pairwise disjoint), and their sizes add up to the count. Whether the call
  then returns normally is not part of the statement.
\<close>

theorem add_v4_block_to_radix_covers:
  assumes "ip_address prefix_addr = Some (IPv4Address a)" "0 \<le> a" "0 < c" "a + c \<le> 2 ^ 32"
  shows "\<exists>calls e radix' out'.
           v4_block_calls (IPv4Address a) c [] = Some (calls, e) \<and>
           add_v4_block_to_radix ip_address radix prefix_addr c prefix_info out =
             Some (radix', out', e) \<and>
           add_all radix calls prefix_info out = Inr (radix', out') \<and>
           (\<Union>x\<in>set calls. prefix_range (fst x)) = {a ..< a + c} \<and>
           (\<forall>i j. i < j \<and> j < length calls \<longrightarrow>
              prefix_end (fst (calls ! i)) \<le> prefix_first (fst (calls ! j)) \<and>
              prefix_first (fst (calls ! i)) < prefix_first (fst (calls ! j)) \<and>
              prefix_range (fst (calls ! i)) \<inter> prefix_range (fst (calls ! j)) = {}) \<and>
           (\<forall>x\<in>set calls. \<exists>b len. x = ((IPv4Address b, len), 2 ^ nat (32 - len)) \<and>
              0 \<le> len \<and> len \<le> 32 \<and> b mod 2 ^ nat (32 - len) = 0) \<and>
           sum_list (map snd calls) = c"
proof -
  have a32: "a < 2 ^ 32" using assms(3,4) by simp
  have c0: "0 \<le> c" using assms(3) by simp
  define e where "e = (if 0 < c \<and> 2 ^ 32 \<le> a + c then Some AddressValueError else None)"
  from loop_v4[where ip_address = ip_address and prefix_addr = prefix_addr and radix = radix
      and prefix_info = prefix_info and out = out, OF assms(1,2) a32 c0]
  obtain calls radix' out' where
    1: "v4_block_calls (IPv4Address a) c [] = Some (calls, e)" and
    2: "chain a calls (min (a + c) (2 ^ 32))" and
    3: "add_all radix calls prefix_info out = Inr (radix', out')" and
    4: "add_v4_block_to_radix ip_address radix prefix_addr c prefix_info out = Some (radix', out', e)"
    unfolding e_def by (elim exE conjE)
  have "min (a + c) (2 ^ 32) = a + c" using assms(4) by simp
  with 2 have ch: "chain a calls (a + c)" by simp
  have un: "(\<Union>x\<in>set calls. prefix_range (fst x)) = {a ..< a + c}" by (rule chain_union[OF ch])
  have so: "sorted_wrt (\<lambda>x y. prefix_end (fst x) \<le> prefix_first (fst y)) calls"
    by (rule chain_sorted[OF ch])
  from chain_bounds[OF ch] have
    rg: "\<forall>x\<in>set calls. prefix_range (fst x) = {prefix_first (fst x) ..< prefix_end (fst x)}" and
    ne: "\<forall>x\<in>set calls. prefix_first (fst x) < prefix_end (fst x)" by simp_all
  have ord: "\<forall>i j. i < j \<and> j < length calls \<longrightarrow>
              prefix_end (fst (calls ! i)) \<le> prefix_first (fst (calls ! j)) \<and>
              prefix_first (fst (calls ! i)) < prefix_first (fst (calls ! j)) \<and>
              prefix_range (fst (calls ! i)) \<inter> prefix_range (fst (calls ! j)) = {}"
  proof (intro allI impI)
    fix i j assume ij: "i < j \<and> j < length calls"
    then have i: "i < j" and j: "j < length calls" by simp_all
    have le: "prefix_end (fst (calls ! i)) \<le> prefix_first (fst (calls ! j))"
      by (rule sorted_disjoint(1)[OF so rg i j])
    have dj: "prefix_range (fst (calls ! i)) \<inter> prefix_range (fst (calls ! j)) = {}"
      by (rule sorted_disjoint(2)[OF so rg i j])
    have "calls ! i \<in> set calls" using i j by simp
    with ne have "prefix_first (fst (calls ! i)) < prefix_end (fst (calls ! i))" by (rule bspec)
    with le have "prefix_first (fst (calls ! i)) < prefix_first (fst (calls ! j))" by simp
    with le dj show "prefix_end (fst (calls ! i)) \<le> prefix_first (fst (calls ! j)) \<and>
              prefix_first (fst (calls ! i)) < prefix_first (fst (calls ! j)) \<and>
              prefix_range (fst (calls ! i)) \<inter> prefix_range (fst (calls ! j)) = {}" by simp
  qed
  have al: "\<forall>x\<in>set calls. \<exists>b len. x = ((IPv4Address b, len), 2 ^ nat (32 - len)) \<and>
              0 \<le> len \<and> len \<le> 32 \<and> b mod 2 ^ nat (32 - len) = 0"
    by (rule chain_aligned[OF ch])
  have sm: "sum_list (map snd calls) = c" using chain_sum[OF ch] by simp
  from 1 4 3 un ord al sm show ?thesis
    by (intro exI[of _ calls] exI[of _ e] exI[of _ radix'] exI[of _ out'] conjI)
qed

theorem add_v4_block_to_radix_covers_witness:
  "\<exists>calls e radix' out'.
     v4_block_calls (IPv4Address 167772160) 3 [] = Some (calls, e) \<and>
     add_v4_block_to_radix plain_address Leaf ''10.0.0.0'' 3 [] [] = Some (radix', out', e) \<and>
     add_all Leaf calls [] [] = Inr (radix', out') \<and>
     (\<Union>x\<in>set calls. prefix_range (fst x)) = {167772160 ..< 167772160 + 3} \<and>
     (\<forall>i j. i < j \<and> j < length calls \<longrightarrow>
        prefix_end (fst (calls ! i)) \<le> prefix_first (fst (calls ! j)) \<and>
        prefix_first (fst (calls ! i)) < prefix_first (fst (calls ! j)) \<and>
        prefix_range (fst (calls ! i)) \<inter> prefix_range (fst (calls ! j)) = {}) \<and>
     (\<forall>x\<in>set calls. \<exists>b len. x = ((IPv4Address b, len), 2 ^ nat (32 - len)) \<and>
        0 \<le> len \<and> len \<le> 32 \<and> b mod 2 ^ nat (32 - len) = 0) \<and>
     sum_list (map snd calls) = 3"
  using add_v4_block_to_radix_covers[where ip_address = plain_address and
      prefix_addr = "''10.0.0.0''" and a = 167772160 and c = 3 and radix = Leaf and
      prefix_info = "[]" and out = "[]"] plain_address_10
  by simp

text \<open>
  Claim C1 as stated fails for 255.255.255.255 with the count 2: the only prefix handed on is
  255.255.255.255/32, and the address \<open>2 ^ 32\<close> of \<open>[start, start + count)\<close> is not in it.
\<close>

theorem add_v4_block_to_radix_covers_counterexample:
  "v4_block_calls (IPv4Address 4294967295) 2 [] =
     Some ([((IPv4Address 4294967295, 32), 1)], Some AddressValueError) \<and>
   (4294967296::int) \<in> {4294967295 ..< 4294967295 + 2} \<and>
   4294967296 \<notin> prefix_range (IPv4Address 4294967295, 32)"
  by code_simp

lemma add_fields_ipv4:
  assumes "fields ! 2 = ''ipv4''" "read_int rd (fields ! 4) = Some c"
    and "add_v4_block_to_radix (read_address rd) v4radix (fields ! 3) c
           [PyStr (fields ! 0), PyStr (fields ! 1), PyStr (fields ! 5), PyStr (fields ! 6),
            PyStr (fields ! 3), PyInt c] out = Some (radix', out', e)"
  shows "add_fields rd fields v4radix v6radix out = Some (radix', v6radix, out', e)"
  using assms by (simp add: add_fields_def)

lemma v4_block_calls_nonpos:
  "\<not> 0 < c \<Longrightarrow> v4_block_calls addr c emitted = Some (emitted, None)"
  by (subst v4_block_calls.simps) simp

lemma add_v4_block_loop_nonpos:
  "\<not> 0 < c \<Longrightarrow> add_v4_block_loop radix addr c prefix_info out = Some (radix, out, None)"
  by (subst add_v4_block_loop.simps) simp

text \<open>
  Claim C6, as amended. An IPv4 record whose count is out of range is refused only in part.

  If the block reaches past the end of the address space (\<open>start + count > 2 ^ 32\<close>, which
  includes every count above \<open>2 ^ 32\<close>, the counts that would need a prefix length below 0),
  \<^verbatim>\<open>add_v4_block_to_radix\<close> raises \<^verbatim>\<open>AddressValueError\<close>, and so does the body of the loop of
  \<^verbatim>\<open>parse_nro_stats\<close> for that record; it does so after it has added the prefixes that cover
  \<open>[start, 2 ^ 32)\<close>, which are at least one.

  If the count is zero or negative (the counts that would need a prefix length above 32),
  nothing is raised: the loop \<^verbatim>\<open>while addrcount > 0\<close> is not entered, no prefix is handed to the
  tree, and the trees and the output are as they were.
\<close>

theorem add_v4_block_to_radix_out_of_range:
  assumes "fields ! 2 = ''ipv4''" "read_int rd (fields ! 4) = Some c"
    and "read_address rd (fields ! 3) = Some (IPv4Address a)"
    and "0 \<le> a" "a < 2 ^ 32"
    and "prefix_info = [PyStr (fields ! 0), PyStr (fields ! 1), PyStr (fields ! 5),
           PyStr (fields ! 6), PyStr (fields ! 3), PyInt c]"
  shows "(2 ^ 32 < a + c \<longrightarrow>
           (\<exists>calls radix' out'.
              add_v4_block_to_radix (read_address rd) v4radix (fields ! 3) c prefix_info out =
                Some (radix', out', Some AddressValueError) \<and>
              add_fields rd fields v4radix v6radix out =
                Some (radix', v6radix, out', Some AddressValueError) \<and>
              v4_block_calls (IPv4Address a) c [] = Some (calls, Some AddressValueError) \<and>
              calls \<noteq> [] \<and>
              add_all v4radix calls prefix_info out = Inr (radix', out') \<and>
              (\<Union>x\<in>set calls. prefix_range (fst x)) = {a ..< 2 ^ 32})) \<and>
         (c \<le> 0 \<longrightarrow>
            add_v4_block_to_radix (read_address rd) v4radix (fields ! 3) c prefix_info out =
              Some (v4radix, out, None) \<and>
            add_fields rd fields v4radix v6radix out = Some (v4radix, v6radix, out, None) \<and>
            v4_block_calls (IPv4Address a) c [] = Some ([], None))"
proof (intro conjI impI)
  assume past: "2 ^ 32 < a + c"
  have cpos: "0 < c" using assms(5) past by simp
  then have c0: "0 \<le> c" by simp
  have e: "(if 0 < c \<and> 2 ^ 32 \<le> a + c then Some AddressValueError else None) =
      Some AddressValueError" using cpos past by simp
  have m: "min (a + c) (2 ^ 32) = 2 ^ 32" using past by simp
  from loop_v4[where ip_address = "read_address rd" and prefix_addr = "fields ! 3" and
      radix = v4radix and prefix_info = prefix_info and out = out, OF assms(3,4,5) c0]
  obtain calls radix' out' where
    1: "v4_block_calls (IPv4Address a) c [] = Some (calls, Some AddressValueError)" and
    2: "chain a calls (2 ^ 32)" and
    3: "add_all v4radix calls prefix_info out = Inr (radix', out')" and
    4: "add_v4_block_to_radix (read_address rd) v4radix (fields ! 3) c prefix_info out =
          Some (radix', out', Some AddressValueError)"
    unfolding e m by (elim exE conjE)
  have 5: "add_fields rd fields v4radix v6radix out =
      Some (radix', v6radix, out', Some AddressValueError)"
    using 4 unfolding assms(6) by (rule add_fields_ipv4[OF assms(1,2)])
  have ne: "a \<noteq> 2 ^ 32" using assms(5) by simp
  have 6: "calls \<noteq> []" by (rule chain_nonempty[OF 2 ne])
  have 7: "(\<Union>x\<in>set calls. prefix_range (fst x)) = {a ..< 2 ^ 32}" by (rule chain_union[OF 2])
  from 4 5 1 6 3 7 show "\<exists>calls radix' out'.
      add_v4_block_to_radix (read_address rd) v4radix (fields ! 3) c prefix_info out =
        Some (radix', out', Some AddressValueError) \<and>
      add_fields rd fields v4radix v6radix out =
        Some (radix', v6radix, out', Some AddressValueError) \<and>
      v4_block_calls (IPv4Address a) c [] = Some (calls, Some AddressValueError) \<and>
      calls \<noteq> [] \<and>
      add_all v4radix calls prefix_info out = Inr (radix', out') \<and>
      (\<Union>x\<in>set calls. prefix_range (fst x)) = {a ..< 2 ^ 32}"
    by (intro exI[of _ calls] exI[of _ radix'] exI[of _ out'] conjI)
next
  assume "c \<le> 0"
  then have n: "\<not> 0 < c" by simp
  show 1: "add_v4_block_to_radix (read_address rd) v4radix (fields ! 3) c prefix_info out =
      Some (v4radix, out, None)"
    using assms(3) add_v4_block_loop_nonpos[OF n] by (simp add: add_v4_block_to_radix_def)
  show "add_fields rd fields v4radix v6radix out = Some (v4radix, v6radix, out, None)"
    using 1 unfolding assms(6) by (rule add_fields_ipv4[OF assms(1,2)])
  show "v4_block_calls (IPv4Address a) c [] = Some ([], None)"
    by (rule v4_block_calls_nonpos[OF n])
qed

theorem add_v4_block_to_radix_out_of_range_witness:
  "(\<exists>calls radix' out'.
      add_v4_block_to_radix (read_address plain_reader) Leaf ''255.255.255.255'' 2
        [PyStr ''arin'', PyStr ''US'', PyStr ''20100101'', PyStr ''assigned'',
         PyStr ''255.255.255.255'', PyInt 2] [] =
        Some (radix', out', Some AddressValueError) \<and>
      add_fields plain_reader
        [''arin'', ''US'', ''ipv4'', ''255.255.255.255'', ''2'', ''20100101'', ''assigned'']
        Leaf Leaf [] = Some (radix', Leaf, out', Some AddressValueError) \<and>
      v4_block_calls (IPv4Address 4294967295) 2 [] = Some (calls, Some AddressValueError) \<and>
      calls \<noteq> [] \<and>
      add_all Leaf calls
        [PyStr ''arin'', PyStr ''US'', PyStr ''20100101'', PyStr ''assigned'',
         PyStr ''255.255.255.255'', PyInt 2] [] = Inr (radix', out') \<and>
      (\<Union>x\<in>set calls. prefix_range (fst x)) = {4294967295 ..< 2 ^ 32}) \<and>
   (add_v4_block_to_radix (read_address plain_reader) Leaf ''10.0.0.0'' (- 1)
      [PyStr ''arin'', PyStr ''US'', PyStr ''20100101'', PyStr ''assigned'',
       PyStr ''10.0.0.0'', PyInt (- 1)] [] = Some (Leaf, [], None) \<and>
    add_fields plain_reader
      [''arin'', ''US'', ''ipv4'', ''10.0.0.0'', ''-1'', ''20100101'', ''assigned'']
      Leaf Leaf [] = Some (Leaf, Leaf, [], None) \<and>
    v4_block_calls (IPv4Address 167772160) (- 1) [] = Some ([], None))"
proof -
  have i: "read_int plain_reader ''2'' = Some 2" by code_simp
  have a: "read_address plain_reader ''255.255.255.255'' = Some (IPv4Address 4294967295)"
    by code_simp
  have j: "read_int plain_reader ''-1'' = Some (- 1)" by code_simp
  have b: "read_address plain_reader ''10.0.0.0'' = Some (IPv4Address 167772160)"
    by code_simp
  show ?thesis
    using add_v4_block_to_radix_out_of_range[where rd = plain_reader and
        fields = "[''arin'', ''US'', ''ipv4'', ''255.255.255.255'', ''2'', ''20100101'', ''assigned'']"
        and c = 2 and a = 4294967295 and v4radix = Leaf and v6radix = Leaf and out = "[]" and
        prefix_info = "[PyStr ''arin'', PyStr ''US'', PyStr ''20100101'', PyStr ''assigned'',
          PyStr ''255.255.255.255'', PyInt 2]"]
      add_v4_block_to_radix_out_of_range[where rd = plain_reader and
        fields = "[''arin'', ''US'', ''ipv4'', ''10.0.0.0'', ''-1'', ''20100101'', ''assigned'']"
        and c = "- 1" and a = 167772160 and v4radix = Leaf and v6radix = Leaf and out = "[]" and
        prefix_info = "[PyStr ''arin'', PyStr ''US'', PyStr ''20100101'', PyStr ''assigned'',
          PyStr ''10.0.0.0'', PyInt (- 1)]"]
      i a j b
    by simp
qed

text \<open>
  Claim C6 as stated fails on both sides. For the line of 255.255.255.255 with the count 2, and
  for the line of 0.0.0.0 with the count \<open>2 ^ 32 + 1\<close>, the exception is raised, and the prefix
  255.255.255.255/32, or 0.0.0.0/0, has been added to the tree before. For the lines of 10.0.0.0
  with the counts 0 and -1 no exception is raised at all, and nothing is added.
\<close>

theorem add_v4_block_to_radix_out_of_range_counterexample:
  "snd (snd (snd (the (parse_nro_stats plain_reader
       [''arin|US|ipv4|255.255.255.255|2|20100101|assigned''] Leaf Leaf [])))) =
     Some AddressValueError \<and>
   nodes (fst (the (parse_nro_stats plain_reader
       [''arin|US|ipv4|255.255.255.255|2|20100101|assigned''] Leaf Leaf []))) =
     [((IPv4Address 4294967295, 32),
       [[PyStr ''arin'', PyStr ''US'', PyStr ''20100101'', PyStr ''assigned'',
         PyStr ''255.255.255.255'', PyInt 2, PyInt 1]])] \<and>
   snd (snd (snd (the (parse_nro_stats plain_reader
       [''arin|US|ipv4|0.0.0.0|4294967297|20100101|assigned''] Leaf Leaf [])))) =
     Some AddressValueError \<and>
   nodes (fst (the (parse_nro_stats plain_reader
       [''arin|US|ipv4|0.0.0.0|4294967297|20100101|assigned''] Leaf Leaf []))) =
     [((IPv4Address 0, 0),
       [[PyStr ''arin'', PyStr ''US'', PyStr ''20100101'', PyStr ''assigned'',
         PyStr ''0.0.0.0'', PyInt 4294967297, PyInt 4294967296]])] \<and>
   parse_nro_stats plain_reader [''arin|US|ipv4|10.0.0.0|0|20100101|assigned''] Leaf Leaf [] =
     Some (Leaf, Leaf, [], None) \<and>
   parse_nro_stats plain_reader [''arin|US|ipv4|10.0.0.0|-1|20100101|assigned''] Leaf Leaf [] =
     Some (Leaf, Leaf, [], None)"
  by code_simp

lemma length_addr_bits: "length (addr_bits n a) = n"
  by (induction n) simp_all

lemma take_addr_bits: "n \<le> w \<Longrightarrow> take n (addr_bits w a) = addr_bits n (a div 2 ^ (w - n))"
proof (induction w arbitrary: n)
  case 0
  then show ?case by simp
next
  case (Suc w)
  show ?case
  proof (cases n)
    case 0
    then show ?thesis by simp
  next
    case (Suc m)
    with Suc.prems have mw: "m \<le> w" by simp
    have d: "a div 2 ^ (w - m) div 2 ^ m = a div 2 ^ w"
      using mw by (simp add: zdiv_zmult2_eq[symmetric] power_add[symmetric])
    show ?thesis using Suc Suc.IH[OF mw] d by simp
  qed
qed

lemma bits_val_addr_bits: "bits_val (addr_bits n a) = a mod 2 ^ n"
proof (induction n)
  case 0
  then show ?case by simp
next
  case (Suc n)
  have "a mod (2 ^ n * 2) = 2 ^ n * (a div 2 ^ n mod 2) + a mod 2 ^ n"
    by (rule zmod_zmult2_eq) simp
  moreover have "a div 2 ^ n mod 2 = (if odd (a div 2 ^ n) then 1 else 0)"
    by (simp add: odd_iff_mod_2_eq_one)
  ultimately show ?case using Suc by (simp add: length_addr_bits mult.commute)
qed

lemma key_prefix_aligned:
  fixes a :: int
  assumes "0 \<le> a" "a < 2 ^ w" "n \<le> w" "a mod 2 ^ (w - n) = 0"
  shows "bits_val (take n (addr_bits w a)) * 2 ^ (w - n) = a"
    and "length (take n (addr_bits w a)) = n"
proof -
  from assms(4) obtain m where m: "a = 2 ^ (w - n) * m" by (auto simp: mod_eq_0_iff_dvd)
  have d: "a div 2 ^ (w - n) = m" unfolding m by simp
  have p: "(2::int) ^ w = 2 ^ (w - n) * 2 ^ n" using assms(3) by (simp flip: power_add)
  have "2 ^ (w - n) * m < (2::int) ^ (w - n) * 2 ^ n" using assms(2) unfolding m p .
  then have lt: "m < 2 ^ n" by simp
  have "0 \<le> 2 ^ (w - n) * m" using assms(1) unfolding m .
  then have ge: "0 \<le> m" by (simp add: zero_le_mult_iff)
  from ge lt have "m mod 2 ^ n = m" by simp
  then have "bits_val (take n (addr_bits w a)) = m"
    using assms(3) by (simp add: take_addr_bits bits_val_addr_bits d)
  then show "bits_val (take n (addr_bits w a)) * 2 ^ (w - n) = a"
    unfolding m by simp
  show "length (take n (addr_bits w a)) = n" using assms(3) by (simp add: length_addr_bits)
qed

lemma key_prefix_v4:
  assumes "0 \<le> a" "a < 2 ^ 32" "0 \<le> len" "len \<le> 32" "a mod 2 ^ nat (32 - len) = 0"
  shows "prefix_key (IPv4Address a, len) = Inr (False # take (nat len) (addr_bits 32 a))"
    and "key_prefix (False # take (nat len) (addr_bits 32 a)) = (IPv4Address a, len)"
proof -
  show "prefix_key (IPv4Address a, len) = Inr (False # take (nat len) (addr_bits 32 a))"
    using assms(3,4) by simp
  have n: "nat len \<le> 32" using assms(4) by simp
  have e: "32 - nat len = nat (32 - len)" using assms(3) by simp
  from assms(5) have m: "a mod 2 ^ (32 - nat len) = 0" unfolding e .
  from key_prefix_aligned[OF assms(1,2) n m]
  show "key_prefix (False # take (nat len) (addr_bits 32 a)) = (IPv4Address a, len)"
    using assms(3) by simp
qed

lemma key_prefix_v6:
  assumes "0 \<le> a" "a < 2 ^ 128" "0 \<le> len" "len \<le> 128" "a mod 2 ^ nat (128 - len) = 0"
  shows "prefix_key (IPv6Address a, len) = Inr (True # take (nat len) (addr_bits 128 a))"
    and "key_prefix (True # take (nat len) (addr_bits 128 a)) = (IPv6Address a, len)"
proof -
  show "prefix_key (IPv6Address a, len) = Inr (True # take (nat len) (addr_bits 128 a))"
    using assms(3,4) by simp
  have n: "nat len \<le> 128" using assms(4) by simp
  have e: "128 - nat len = nat (128 - len)" using assms(3) by simp
  from assms(5) have m: "a mod 2 ^ (128 - nat len) = 0" unfolding e .
  from key_prefix_aligned[OF assms(1,2) n m]
  show "key_prefix (True # take (nat len) (addr_bits 128 a)) = (IPv6Address a, len)"
    using assms(3) by simp
qed

lemma lookup_update_other: "k \<noteq> k' \<Longrightarrow> lookup (update t k v) k' = lookup t k'"
proof (induction t k v arbitrary: k' rule: update.induct)
  case (1 v)
  then show ?case by (cases k') auto
next
  case (2 b k v)
  then show ?case by (cases k') auto
next
  case (3 d l r v)
  then show ?case by (cases k') auto
next
  case (4 d l r b k v)
  then show ?case by (cases k') auto
qed

lemma lookup_update: "lookup (update t k v) k' = (if k = k' then Some v else lookup t k')"
  by (simp add: lookup_update_same lookup_update_other)

lemma find_prefix_size_returns_v4:
  assumes "find_prefix_size addr p = Some q"
  shows "\<exists>a. addr = IPv4Address a"
proof (rule find_prefix_size.raw_induct[where P = "\<lambda>addr p q. \<exists>a. addr = IPv4Address a", OF _ assms])
  fix find :: "ipaddr \<Rightarrow> int \<Rightarrow> int option" and addr p q
  assume ih: "\<And>x b y. find x b = Some y \<Longrightarrow> \<exists>a. x = IPv4Address a"
    and st: "(case IPv4Network addr p of Inl v \<Rightarrow> find addr (p + 1) | Inr t \<Rightarrow> Some p) = Some q"
  show "\<exists>a. addr = IPv4Address a"
  proof (cases addr)
    case (IPv4Address a)
    then show ?thesis by simp
  next
    case (IPv6Address a)
    with st have "find addr (p + 1) = Some q" by simp
    then show ?thesis by (rule ih)
  qed
qed

lemma add_prefix_to_radix_Inr:
  assumes "add_prefix_to_radix radix prefix prefix_info out = Inr (radix', out')"
  shows "\<exists>k. prefix_key prefix = Inr k \<and>
           radix' = update radix k (data_get_info radix k @ [prefix_info]) \<and>
           out' = (if lookup radix k = None then out else out @ [Warning prefix])"
proof (cases "prefix_key prefix")
  case (Inl e)
  with assms show ?thesis by (simp add: add_prefix_to_radix_def search_exact_def)
next
  case (Inr k)
  from add_prefix_to_radix_key[OF Inr, of radix prefix_info out] assms Inr
  show ?thesis by simp
qed

lemma data_get_info_update:
  "data_get_info (update t k v) k' = (if k = k' then v else data_get_info t k')"
  by (simp add: data_get_info_def lookup_update)

lemma add_list_lookup:
  "add_list radix adds out = Inr (radix', out') \<Longrightarrow>
   lookup radix' k =
     (if added k adds = [] then lookup radix k else Some (data_get_info radix k @ added k adds))"
proof (induction adds arbitrary: radix out)
  case Nil
  then show ?case by (simp add: added_def)
next
  case (Cons x adds)
  obtain p i where x: "x = (p, i)" by (cases x)
  from Cons.prems obtain r1 o1 where
    a1: "add_prefix_to_radix radix p i out = Inr (r1, o1)" and
    a2: "add_list r1 adds o1 = Inr (radix', out')"
    by (auto simp: x split: sum.splits)
  from add_prefix_to_radix_Inr[OF a1] obtain k0 where
    k0: "prefix_key p = Inr k0" and r1: "r1 = update radix k0 (data_get_info radix k0 @ [i])"
    by (elim exE conjE)
  note ih = Cons.IH[OF a2]
  show ?case
  proof (cases "k0 = k")
    case True
    have ad: "added k (x # adds) = i # added k adds" using k0 True by (simp add: added_def x)
    have l1: "lookup r1 k = Some (data_get_info radix k @ [i])"
      using True by (simp add: r1 lookup_update)
    have d1: "data_get_info r1 k = data_get_info radix k @ [i]"
      using True by (simp add: r1 data_get_info_update)
    show ?thesis unfolding ih ad l1 d1 by simp
  next
    case False
    have ad: "added k (x # adds) = added k adds" using k0 False by (simp add: added_def x)
    have l1: "lookup r1 k = lookup radix k" using False by (simp add: r1 lookup_update)
    have d1: "data_get_info r1 k = data_get_info radix k"
      using False by (simp add: r1 data_get_info_update)
    show ?thesis unfolding ih ad l1 d1 by simp
  qed
qed

lemma add_list_data:
  "add_list radix adds out = Inr (radix', out') \<Longrightarrow>
   data_get_info radix' k = data_get_info radix k @ added k adds"
  using add_list_lookup[of radix adds out radix' out' k]
  by (simp add: data_get_info_def)

lemma add_all_add_list:
  "add_all radix calls prefix_info out =
   add_list radix (map (\<lambda>x. (fst x, prefix_info @ [PyInt (snd x)])) calls) out"
proof (induction calls arbitrary: radix out)
  case Nil
  then show ?case by simp
next
  case (Cons x calls)
  obtain p u where x: "x = (p, u)" by (cases x)
  show ?case using Cons.IH by (simp add: x split: sum.splits)
qed

lemma chain_distinct: "chain lo calls hi \<Longrightarrow> distinct (map fst calls)"
proof (induction calls arbitrary: lo)
  case Nil
  then show ?case by simp
next
  case (Cons x calls)
  obtain addr len used where x: "x = ((addr, len), used)" by (cases x) auto
  from Cons.prems have h: "addr = IPv4Address lo" "used = 2 ^ nat (32 - len)"
    "chain (lo + used) calls hi" by (auto simp: x)
  have pos: "0 < used" by (simp add: h(2))
  from chain_bounds[OF h(3)] have b: "\<forall>y\<in>set calls. lo + used \<le> prefix_first (fst y)" by simp
  have "fst x \<notin> fst ` set calls"
  proof
    assume "fst x \<in> fst ` set calls"
    then obtain y where y: "y \<in> set calls" "fst y = fst x" by auto
    from b y(1) have "lo + used \<le> prefix_first (fst y)" by (rule bspec)
    then have "lo + used \<le> lo" unfolding y(2) by (simp add: x h(1))
    with pos show False by simp
  qed
  then show ?case using Cons.IH[OF h(3)] by simp
qed

lemma chain_keys:
  assumes "chain lo calls hi" "0 \<le> lo" "hi \<le> 2 ^ 32" "x \<in> set calls"
  shows "\<exists>k. prefix_key (fst x) = Inr k \<and> key_prefix k = fst x"
proof -
  from bspec[OF chain_aligned[OF assms(1)] assms(4)] obtain b len where
    x: "x = ((IPv4Address b, len), 2 ^ nat (32 - len))" and l0: "0 \<le> len" and l32: "len \<le> 32"
    and al: "b mod 2 ^ nat (32 - len) = 0" by (elim exE conjE)
  from chain_bounds[OF assms(1)] have
    "\<forall>x\<in>set calls. lo \<le> prefix_first (fst x) \<and> prefix_end (fst x) \<le> hi \<and>
      prefix_range (fst x) = {prefix_first (fst x) ..< prefix_end (fst x)} \<and>
      prefix_first (fst x) < prefix_end (fst x)" by (rule conjunct2)
  from bspec[OF this assms(4)] have
    f1: "lo \<le> prefix_first (fst x)" and f2: "prefix_end (fst x) \<le> hi" and
    f3: "prefix_first (fst x) < prefix_end (fst x)" by simp_all
  have pf: "prefix_first (fst x) = b" by (simp add: x)
  have b0: "0 \<le> b" using f1 assms(2) unfolding pf by simp
  have "prefix_first (fst x) < hi" using f3 f2 by (rule less_le_trans)
  then have "b < hi" unfolding pf .
  then have b32: "b < 2 ^ 32" using assms(3) by (rule less_le_trans)
  from key_prefix_v4[OF b0 b32 l0 l32 al] show ?thesis
    by (intro exI[of _ "False # take (nat len) (addr_bits 32 b)"]) (simp add: x)
qed

lemma filter_distinct_key:
  "distinct (map f xs) \<Longrightarrow> x \<in> set xs \<Longrightarrow> filter (\<lambda>y. f y = f x) xs = [x]"
proof (induction xs)
  case Nil
  then show ?case by simp
next
  case (Cons z xs)
  show ?case
  proof (cases "z = x")
    case True
    with Cons.prems have "\<forall>y\<in>set xs. f y \<noteq> f x" by (fastforce simp: image_iff)
    then have "filter (\<lambda>y. f y = f x) xs = []" by (simp add: filter_empty_conv)
    with True show ?thesis by simp
  next
    case False
    with Cons.prems have xin: "x \<in> set xs" by simp
    with Cons.prems have "f z \<noteq> f x" by auto
    then show ?thesis using Cons.IH xin Cons.prems by simp
  qed
qed

lemma chain_added:
  assumes "chain lo calls hi" "0 \<le> lo" "hi \<le> 2 ^ 32" "x \<in> set calls"
    and "prefix_key (fst x) = Inr k"
  shows "added k (map (\<lambda>x. (fst x, prefix_info @ [PyInt (snd x)])) calls) =
           [prefix_info @ [PyInt (snd x)]]"
proof -
  from chain_keys[OF assms(1-4)] assms(5) have kx: "key_prefix k = fst x" by auto
  have eq: "\<And>y. y \<in> set calls \<Longrightarrow> (prefix_key (fst y) = Inr k) = (fst y = fst x)"
  proof -
    fix y assume y: "y \<in> set calls"
    from chain_keys[OF assms(1-3) y] obtain k' where
      k': "prefix_key (fst y) = Inr k'" "key_prefix k' = fst y" by (elim exE conjE)
    show "(prefix_key (fst y) = Inr k) = (fst y = fst x)"
    proof
      assume "prefix_key (fst y) = Inr k"
      with k' have "k' = k" by simp
      with k'(2) kx show "fst y = fst x" by simp
    next
      assume "fst y = fst x"
      with assms(5) show "prefix_key (fst y) = Inr k" by simp
    qed
  qed
  have "filter (\<lambda>y. prefix_key (fst y) = Inr k) calls = filter (\<lambda>y. fst y = fst x) calls"
    using eq by (intro filter_cong refl) simp
  also have "\<dots> = [x]" by (rule filter_distinct_key[OF chain_distinct[OF assms(1)] assms(4)])
  finally have f: "filter (\<lambda>y. prefix_key (fst y) = Inr k) calls = [x]" .
  have "added k (map (\<lambda>x. (fst x, prefix_info @ [PyInt (snd x)])) calls) =
      map (\<lambda>x. prefix_info @ [PyInt (snd x)]) (filter (\<lambda>y. prefix_key (fst y) = Inr k) calls)"
    by (simp add: added_def filter_map comp_def)
  then show ?thesis unfolding f by simp
qed

lemma add_v4_block_loop_v6:
  "add_v4_block_loop radix (IPv6Address a) c prefix_info out =
     (if 0 < c then None else Some (radix, out, None))"
proof -
  have "find_prefix_size (IPv6Address a) p = None" for p
  proof (cases "find_prefix_size (IPv6Address a) p")
    case None
    then show ?thesis .
  next
    case (Some q)
    from find_prefix_size_returns_v4[OF Some] show ?thesis by simp
  qed
  then have "v4_block (IPv6Address a) c = None" by (simp add: v4_block_def)
  then show ?thesis by (subst add_v4_block_loop.simps) simp
qed

lemma add_all_lookup_chain:
  assumes "chain lo calls hi" "0 \<le> lo" "hi \<le> 2 ^ 32"
    and "add_all radix calls prefix_info out = Inr (radix', out')" and "x \<in> set calls"
  shows "\<exists>k. prefix_key (fst x) = Inr k \<and>
           lookup radix' k = Some (data_get_info radix k @ [prefix_info @ [PyInt (snd x)]])"
proof -
  from chain_keys[OF assms(1,2,3,5)] obtain k where k: "prefix_key (fst x) = Inr k"
    by (elim exE conjE)
  from assms(4) have al: "add_list radix (map (\<lambda>x. (fst x, prefix_info @ [PyInt (snd x)])) calls) out =
      Inr (radix', out')" by (simp add: add_all_add_list)
  have ad: "added k (map (\<lambda>x. (fst x, prefix_info @ [PyInt (snd x)])) calls) =
      [prefix_info @ [PyInt (snd x)]]" by (rule chain_added[OF assms(1,2,3,5) k])
  from add_list_lookup[OF al, of k] have
    "lookup radix' k = Some (data_get_info radix k @ [prefix_info @ [PyInt (snd x)]])"
    unfolding ad by simp
  with k show ?thesis by (intro exI[of _ k] conjI)
qed

text \<open>
  Claim C5, as amended. \<^verbatim>\<open>add_v4_block_to_radix\<close> undoes nothing. When it ends with an exception,
  either the text of the address was not an address, and the tree is as it was, or the
  address addition has failed at the end of the IPv4 address space: then the prefixes that
  cover \<open>[start, 2 ^ 32)\<close>, at least one, have been added, the tuple of the record is the last
  one on the node of each of them, and the tree is not the tree from before the record.
\<close>

theorem add_v4_block_to_radix_failure:
  assumes "add_v4_block_to_radix ip_address radix prefix_addr c prefix_info out =
             Some (radix', out', Some e)"
    and "\<forall>a. ip_address prefix_addr = Some (IPv4Address a) \<longrightarrow> 0 \<le> a \<and> a < 2 ^ 32"
  shows "(ip_address prefix_addr = None \<and> e = ValueError \<and> radix' = radix \<and> out' = out) \<or>
         (\<exists>a calls. ip_address prefix_addr = Some (IPv4Address a) \<and> e = AddressValueError \<and>
            0 < c \<and> 2 ^ 32 \<le> a + c \<and>
            v4_block_calls (IPv4Address a) c [] = Some (calls, Some AddressValueError) \<and>
            calls \<noteq> [] \<and>
            (\<Union>x\<in>set calls. prefix_range (fst x)) = {a ..< 2 ^ 32} \<and>
            (\<forall>x\<in>set calls. \<exists>k. prefix_key (fst x) = Inr k \<and>
               lookup radix' k = Some (data_get_info radix k @ [prefix_info @ [PyInt (snd x)]])) \<and>
            radix' \<noteq> radix)"
proof (cases "ip_address prefix_addr")
  case None
  with assms(1) show ?thesis by (simp add: add_v4_block_to_radix_def)
next
  case (Some addr)
  with assms(1) have loop: "add_v4_block_loop radix addr c prefix_info out =
      Some (radix', out', Some e)" by (simp add: add_v4_block_to_radix_def)
  show ?thesis
  proof (cases addr)
    case (IPv6Address a)
    with loop show ?thesis by (simp add: add_v4_block_loop_v6 split: if_splits)
  next
    case (IPv4Address a)
    with Some have ia: "ip_address prefix_addr = Some (IPv4Address a)" by simp
    with assms(2) have a0: "0 \<le> a" and a32: "a < 2 ^ 32" by simp_all
    have c0: "0 \<le> c"
    proof (rule ccontr)
      assume "\<not> 0 \<le> c"
      then have "add_v4_block_loop radix (IPv4Address a) c prefix_info out = Some (radix, out, None)"
        by (subst add_v4_block_loop.simps) simp
      with loop IPv4Address show False by simp
    qed
    define E where "E = (if 0 < c \<and> 2 ^ 32 \<le> a + c then Some AddressValueError else None)"
    from loop_v4[where ip_address = ip_address and prefix_addr = prefix_addr and radix = radix
        and prefix_info = prefix_info and out = out, OF ia a0 a32 c0]
    obtain calls r1 o1 where
      1: "v4_block_calls (IPv4Address a) c [] = Some (calls, E)" and
      2: "chain a calls (min (a + c) (2 ^ 32))" and
      3: "add_all radix calls prefix_info out = Inr (r1, o1)" and
      4: "add_v4_block_to_radix ip_address radix prefix_addr c prefix_info out = Some (r1, o1, E)"
      unfolding E_def by (elim exE conjE)
    from 4 assms(1) have r: "r1 = radix'" and o: "o1 = out'" and e: "E = Some e" by simp_all
    from e have cond: "0 < c \<and> 2 ^ 32 \<le> a + c" and ev: "e = AddressValueError"
      by (auto simp: E_def split: if_splits)
    then have m: "min (a + c) (2 ^ 32) = 2 ^ 32" by simp
    from 2 have ch: "chain a calls (2 ^ 32)" unfolding m .
    have hi: "(2::int) ^ 32 \<le> 2 ^ 32" by simp
    have ne: "calls \<noteq> []" using a32 by (intro chain_nonempty[OF ch]) simp
    have un: "(\<Union>x\<in>set calls. prefix_range (fst x)) = {a ..< 2 ^ 32}" by (rule chain_union[OF ch])
    from 3 have aa: "add_all radix calls prefix_info out = Inr (radix', out')" unfolding r o .
    have at: "\<forall>x\<in>set calls. \<exists>k. prefix_key (fst x) = Inr k \<and>
               lookup radix' k = Some (data_get_info radix k @ [prefix_info @ [PyInt (snd x)]])"
    proof
      fix x assume "x \<in> set calls"
      then show "\<exists>k. prefix_key (fst x) = Inr k \<and>
               lookup radix' k = Some (data_get_info radix k @ [prefix_info @ [PyInt (snd x)]])"
        by (rule add_all_lookup_chain[OF ch a0 hi aa])
    qed
    have df: "radix' \<noteq> radix"
    proof
      assume same: "radix' = radix"
      from ne obtain x where x: "x \<in> set calls" by (cases calls) auto
      from bspec[OF at x] obtain k where
        "lookup radix' k = Some (data_get_info radix k @ [prefix_info @ [PyInt (snd x)]])"
        by (elim exE conjE)
      then have "lookup radix k = Some (data_get_info radix k @ [prefix_info @ [PyInt (snd x)]])"
        unfolding same .
      then show False by (cases "lookup radix k") (simp_all add: data_get_info_def)
    qed
    have v: "v4_block_calls (IPv4Address a) c [] = Some (calls, Some AddressValueError)"
      using 1 e ev by simp
    have "\<exists>a calls. ip_address prefix_addr = Some (IPv4Address a) \<and> e = AddressValueError \<and>
            0 < c \<and> 2 ^ 32 \<le> a + c \<and>
            v4_block_calls (IPv4Address a) c [] = Some (calls, Some AddressValueError) \<and>
            calls \<noteq> [] \<and>
            (\<Union>x\<in>set calls. prefix_range (fst x)) = {a ..< 2 ^ 32} \<and>
            (\<forall>x\<in>set calls. \<exists>k. prefix_key (fst x) = Inr k \<and>
               lookup radix' k = Some (data_get_info radix k @ [prefix_info @ [PyInt (snd x)]])) \<and>
            radix' \<noteq> radix"
      using ia ev cond v ne un at df by (intro exI[of _ a] exI[of _ calls] conjI) simp_all
    then show ?thesis by (rule disjI2)
  qed
qed

theorem add_v4_block_to_radix_failure_witness:
  "(plain_address ''255.255.255.254'' = None \<and> AddressValueError = ValueError \<and>
      fst (the (add_v4_block_to_radix plain_address Leaf ''255.255.255.254'' 3 [PyStr ''r''] [])) = Leaf \<and>
      [] = ([]::msg list)) \<or>
   (\<exists>a calls. plain_address ''255.255.255.254'' = Some (IPv4Address a) \<and>
      AddressValueError = AddressValueError \<and> (0::int) < 3 \<and> 2 ^ 32 \<le> a + 3 \<and>
      v4_block_calls (IPv4Address a) 3 [] = Some (calls, Some AddressValueError) \<and>
      calls \<noteq> [] \<and>
      (\<Union>x\<in>set calls. prefix_range (fst x)) = {a ..< 2 ^ 32} \<and>
      (\<forall>x\<in>set calls. \<exists>k. prefix_key (fst x) = Inr k \<and>
         lookup (fst (the (add_v4_block_to_radix plain_address Leaf ''255.255.255.254'' 3
              [PyStr ''r''] []))) k =
           Some (data_get_info Leaf k @ [[PyStr ''r''] @ [PyInt (snd x)]])) \<and>
      fst (the (add_v4_block_to_radix plain_address Leaf ''255.255.255.254'' 3 [PyStr ''r''] [])) \<noteq> Leaf)"
proof -
  have r: "add_v4_block_to_radix plain_address Leaf ''255.255.255.254'' 3 [PyStr ''r''] [] =
      Some (fst (the (add_v4_block_to_radix plain_address Leaf ''255.255.255.254'' 3
              [PyStr ''r''] [])), [], Some AddressValueError)"
    by code_simp
  have p: "plain_address ''255.255.255.254'' = Some (IPv4Address 4294967294)" by code_simp
  have v: "\<forall>a. plain_address ''255.255.255.254'' = Some (IPv4Address a) \<longrightarrow> 0 \<le> a \<and> a < 2 ^ 32"
    unfolding p by simp
  show ?thesis by (rule add_v4_block_to_radix_failure[OF r v])
qed

text \<open>
  Claim C5 as stated fails for 255.255.255.254 with the count 3 on the empty tree: the call
  ends with the exception, and the tree holds the node of 255.255.255.254/31.
\<close>

theorem add_v4_block_to_radix_failure_counterexample:
  "snd (snd (the (add_v4_block_to_radix plain_address Leaf ''255.255.255.254'' 3 [PyStr ''r''] []))) =
     Some AddressValueError \<and>
   nodes (fst (the (add_v4_block_to_radix plain_address Leaf ''255.255.255.254'' 3 [PyStr ''r''] []))) =
     [((IPv4Address 4294967294, 31), [[PyStr ''r'', PyInt 2]])] \<and>
   nodes Leaf = []"
  by code_simp

lemma add_list_present:
  assumes "add_list radix adds out = Inr (radix', out')"
    and "\<forall>x\<in>set adds. \<forall>k. prefix_key (fst x) = Inr k \<longrightarrow> lookup radix k \<noteq> None"
  shows "out' = out @ map (\<lambda>x. Warning (fst x)) adds"
  using assms
proof (induction adds arbitrary: radix out)
  case Nil
  then show ?case by simp
next
  case (Cons x adds)
  obtain p i where x: "x = (p, i)" by (cases x)
  from Cons.prems(1) obtain r1 o1 where
    a1: "add_prefix_to_radix radix p i out = Inr (r1, o1)" and
    a2: "add_list r1 adds o1 = Inr (radix', out')"
    by (auto simp: x split: sum.splits)
  from add_prefix_to_radix_Inr[OF a1] obtain k0 where
    k0: "prefix_key p = Inr k0" and r1: "r1 = update radix k0 (data_get_info radix k0 @ [i])"
    and o1: "o1 = (if lookup radix k0 = None then out else out @ [Warning p])"
    by (elim exE conjE)
  from Cons.prems(2) k0 have "lookup radix k0 \<noteq> None" by (simp add: x)
  with o1 have o1': "o1 = out @ [Warning p]" by simp
  have "\<forall>y\<in>set adds. \<forall>k. prefix_key (fst y) = Inr k \<longrightarrow> lookup r1 k \<noteq> None"
    using Cons.prems(2) by (simp add: r1 lookup_update)
  from Cons.IH[OF a2 this] show ?case by (simp add: o1' x)
qed

lemma add_list_keeps:
  assumes "add_list radix adds out = Inr (radix', out')" "lookup radix k \<noteq> None"
  shows "lookup radix' k \<noteq> None"
  using add_list_lookup[OF assms(1), of k] assms(2) by (simp split: if_splits)

lemma add_twice:
  assumes "prefix_key prefix = Inr k"
  shows "\<exists>r1 o1 r2.
           add_prefix_to_radix radix prefix info1 out = Inr (r1, o1) \<and>
           add_prefix_to_radix r1 prefix info2 o1 = Inr (r2, o1 @ [Warning prefix]) \<and>
           lookup r2 k = Some (data_get_info radix k @ [info1, info2]) \<and>
           (\<forall>k'. k' \<noteq> k \<longrightarrow> lookup r2 k' = lookup radix k')"
proof -
  define r1 where "r1 = update radix k (data_get_info radix k @ [info1])"
  define o1 where "o1 = (if lookup radix k = None then out else out @ [Warning prefix])"
  define r2 where "r2 = update r1 k (data_get_info r1 k @ [info2])"
  have 1: "add_prefix_to_radix radix prefix info1 out = Inr (r1, o1)"
    unfolding r1_def o1_def by (rule add_prefix_to_radix_key[OF assms])
  have l1: "lookup r1 k \<noteq> None" by (simp add: r1_def lookup_update)
  have "add_prefix_to_radix r1 prefix info2 o1 =
      Inr (r2, if lookup r1 k = None then o1 else o1 @ [Warning prefix])"
    unfolding r2_def by (rule add_prefix_to_radix_key[OF assms])
  with l1 have 2: "add_prefix_to_radix r1 prefix info2 o1 = Inr (r2, o1 @ [Warning prefix])"
    by simp
  have 3: "lookup r2 k = Some (data_get_info radix k @ [info1, info2])"
    by (simp add: r2_def r1_def lookup_update data_get_info_update)
  have 4: "\<forall>k'. k' \<noteq> k \<longrightarrow> lookup r2 k' = lookup radix k'"
    by (simp add: r2_def r1_def lookup_update)
  from 1 2 3 4 show ?thesis by (intro exI[of _ r1] exI[of _ o1] exI[of _ r2] conjI)
qed

lemma add_block_twice:
  assumes "ip_address prefix_addr = Some (IPv4Address a)" "0 \<le> a" "0 < c" "a + c < 2 ^ 32"
  shows "\<exists>calls r1 o1 r2.
           v4_block_calls (IPv4Address a) c [] = Some (calls, None) \<and> calls \<noteq> [] \<and>
           add_v4_block_to_radix ip_address radix prefix_addr c prefix_info out =
             Some (r1, o1, None) \<and>
           add_v4_block_to_radix ip_address r1 prefix_addr c prefix_info o1 =
             Some (r2, o1 @ map (\<lambda>x. Warning (fst x)) calls, None) \<and>
           (\<forall>x\<in>set calls. \<exists>k. prefix_key (fst x) = Inr k \<and>
              lookup r2 k = Some (data_get_info radix k @
                [prefix_info @ [PyInt (snd x)], prefix_info @ [PyInt (snd x)]]))"
proof -
  have a32: "a < 2 ^ 32" using assms(3,4) by simp
  have c0: "0 \<le> c" using assms(3) by simp
  have E: "(if 0 < c \<and> 2 ^ 32 \<le> a + c then Some AddressValueError else None) = None"
    using assms(4) by simp
  have m: "min (a + c) (2 ^ 32) = a + c" using assms(4) by simp
  have hi: "a + c \<le> 2 ^ 32" using assms(4) by simp
  from loop_v4[where ip_address = ip_address and prefix_addr = prefix_addr and radix = radix
      and prefix_info = prefix_info and out = out, OF assms(1,2) a32 c0]
  obtain calls r1 o1 where
    1: "v4_block_calls (IPv4Address a) c [] = Some (calls, None)" and
    2: "chain a calls (a + c)" and
    3: "add_all radix calls prefix_info out = Inr (r1, o1)" and
    4: "add_v4_block_to_radix ip_address radix prefix_addr c prefix_info out = Some (r1, o1, None)"
    unfolding E m by (elim exE conjE)
  from loop_v4[where ip_address = ip_address and prefix_addr = prefix_addr and radix = r1
      and prefix_info = prefix_info and out = o1, OF assms(1,2) a32 c0]
  obtain calls' r2 o2 where
    s1: "v4_block_calls (IPv4Address a) c [] = Some (calls', None)" and
    s3: "add_all r1 calls' prefix_info o1 = Inr (r2, o2)" and
    s4: "add_v4_block_to_radix ip_address r1 prefix_addr c prefix_info o1 = Some (r2, o2, None)"
    unfolding E m by (elim exE conjE)
  from 1 s1 have "calls' = calls" by simp
  with s3 have t3: "add_all r1 calls prefix_info o1 = Inr (r2, o2)" by simp
  have ne: "calls \<noteq> []" using assms(3) by (intro chain_nonempty[OF 2]) simp
  have first: "\<And>x. x \<in> set calls \<Longrightarrow> \<exists>k. prefix_key (fst x) = Inr k \<and>
      lookup r1 k = Some (data_get_info radix k @ [prefix_info @ [PyInt (snd x)]])"
    by (rule add_all_lookup_chain[OF 2 assms(2) hi 3])
  have second: "\<And>x. x \<in> set calls \<Longrightarrow> \<exists>k. prefix_key (fst x) = Inr k \<and>
      lookup r2 k = Some (data_get_info r1 k @ [prefix_info @ [PyInt (snd x)]])"
    by (rule add_all_lookup_chain[OF 2 assms(2) hi t3])
  have both: "\<forall>x\<in>set calls. \<exists>k. prefix_key (fst x) = Inr k \<and>
      lookup r2 k = Some (data_get_info radix k @
        [prefix_info @ [PyInt (snd x)], prefix_info @ [PyInt (snd x)]])"
  proof
    fix x assume x: "x \<in> set calls"
    from first[OF x] obtain k where k: "prefix_key (fst x) = Inr k" and
      l1: "lookup r1 k = Some (data_get_info radix k @ [prefix_info @ [PyInt (snd x)]])"
      by (elim exE conjE)
    from second[OF x] obtain k' where k': "prefix_key (fst x) = Inr k'" and
      l2: "lookup r2 k' = Some (data_get_info r1 k' @ [prefix_info @ [PyInt (snd x)]])"
      by (elim exE conjE)
    from k k' have kk: "k' = k" by simp
    from l1 have d1: "data_get_info r1 k = data_get_info radix k @ [prefix_info @ [PyInt (snd x)]]"
      by (simp add: data_get_info_def)
    from l2 have "lookup r2 k = Some (data_get_info radix k @
        [prefix_info @ [PyInt (snd x)], prefix_info @ [PyInt (snd x)]])"
      unfolding kk d1 by simp
    with k show "\<exists>k. prefix_key (fst x) = Inr k \<and>
      lookup r2 k = Some (data_get_info radix k @
        [prefix_info @ [PyInt (snd x)], prefix_info @ [PyInt (snd x)]])"
      by (intro exI[of _ k] conjI)
  qed
  have present: "\<forall>y\<in>set (map (\<lambda>x. (fst x, prefix_info @ [PyInt (snd x)])) calls).
      \<forall>k. prefix_key (fst y) = Inr k \<longrightarrow> lookup r1 k \<noteq> None"
  proof (intro ballI allI impI)
    fix y k assume y: "y \<in> set (map (\<lambda>x. (fst x, prefix_info @ [PyInt (snd x)])) calls)"
      and k: "prefix_key (fst y) = Inr k"
    from y obtain x where x: "x \<in> set calls" and fy: "fst y = fst x" by auto
    from first[OF x] obtain k0 where k0: "prefix_key (fst x) = Inr k0" and
      l1: "lookup r1 k0 = Some (data_get_info radix k0 @ [prefix_info @ [PyInt (snd x)]])"
      by (elim exE conjE)
    from k k0 fy have "k0 = k" by simp
    with l1 show "lookup r1 k \<noteq> None" by simp
  qed
  from t3 have al: "add_list r1 (map (\<lambda>x. (fst x, prefix_info @ [PyInt (snd x)])) calls) o1 =
      Inr (r2, o2)" by (simp add: add_all_add_list)
  from add_list_present[OF al present] have o2: "o2 = o1 @ map (\<lambda>x. Warning (fst x)) calls"
    by (simp add: comp_def)
  from s4 have 5: "add_v4_block_to_radix ip_address r1 prefix_addr c prefix_info o1 =
      Some (r2, o1 @ map (\<lambda>x. Warning (fst x)) calls, None)" unfolding o2 .
  from 1 ne 4 5 both show ?thesis
    by (intro exI[of _ calls] exI[of _ r1] exI[of _ o1] exI[of _ r2] conjI)
qed

text \<open>
  Claim C4. Adding the same prefix twice is not an error: the second call of
  \<^verbatim>\<open>add_prefix_to_radix\<close> prints the warning and returns, the node of the prefix holds what it
  held before followed by the two tuples in the order of the calls, and no other node changes.
  After the same IPv4 record has gone through \<^verbatim>\<open>add_v4_block_to_radix\<close> twice, the node of
  every prefix of its decomposition holds what it held before the first time followed by the
  tuple of that fragment twice (exactly two tuples when the node was not there), and the second
  time has printed one warning per fragment.
\<close>

theorem duplicate_prefix_kept:
  assumes "prefix_key prefix = Inr k"
    and "ip_address prefix_addr = Some (IPv4Address a)" "0 \<le> a" "0 < c" "a + c < 2 ^ 32"
  shows "(\<exists>r1 o1 r2.
            add_prefix_to_radix radix prefix info1 out = Inr (r1, o1) \<and>
            add_prefix_to_radix r1 prefix info2 o1 = Inr (r2, o1 @ [Warning prefix]) \<and>
            lookup r2 k = Some (data_get_info radix k @ [info1, info2]) \<and>
            (\<forall>k'. k' \<noteq> k \<longrightarrow> lookup r2 k' = lookup radix k')) \<and>
         (\<exists>calls r1 o1 r2.
            v4_block_calls (IPv4Address a) c [] = Some (calls, None) \<and> calls \<noteq> [] \<and>
            add_v4_block_to_radix ip_address radix prefix_addr c prefix_info out =
              Some (r1, o1, None) \<and>
            add_v4_block_to_radix ip_address r1 prefix_addr c prefix_info o1 =
              Some (r2, o1 @ map (\<lambda>x. Warning (fst x)) calls, None) \<and>
            (\<forall>x\<in>set calls. \<exists>k. prefix_key (fst x) = Inr k \<and>
               lookup r2 k = Some (data_get_info radix k @
                 [prefix_info @ [PyInt (snd x)], prefix_info @ [PyInt (snd x)]])))"
  using add_twice[OF assms(1)]
    add_block_twice[where ip_address = ip_address and prefix_addr = prefix_addr, OF assms(2-5)]
  by (rule conjI)

theorem duplicate_prefix_kept_witness:
  "(\<exists>r1 o1 r2.
      add_prefix_to_radix Leaf (IPv6Address (536939960 * 2 ^ 96), 32) [PyStr ''ripencc''] [] =
        Inr (r1, o1) \<and>
      add_prefix_to_radix r1 (IPv6Address (536939960 * 2 ^ 96), 32) [PyStr ''arin''] o1 =
        Inr (r2, o1 @ [Warning (IPv6Address (536939960 * 2 ^ 96), 32)]) \<and>
      lookup r2 (True # take (nat 32) (addr_bits 128 (536939960 * 2 ^ 96))) =
        Some (data_get_info Leaf (True # take (nat 32) (addr_bits 128 (536939960 * 2 ^ 96))) @
          [[PyStr ''ripencc''], [PyStr ''arin'']]) \<and>
      (\<forall>k'. k' \<noteq> True # take (nat 32) (addr_bits 128 (536939960 * 2 ^ 96)) \<longrightarrow>
         lookup r2 k' = lookup Leaf k')) \<and>
   (\<exists>calls r1 o1 r2.
      v4_block_calls (IPv4Address 167772160) 3 [] = Some (calls, None) \<and> calls \<noteq> [] \<and>
      add_v4_block_to_radix plain_address Leaf ''10.0.0.0'' 3 [PyStr ''ripencc''] [] =
        Some (r1, o1, None) \<and>
      add_v4_block_to_radix plain_address r1 ''10.0.0.0'' 3 [PyStr ''ripencc''] o1 =
        Some (r2, o1 @ map (\<lambda>x. Warning (fst x)) calls, None) \<and>
      (\<forall>x\<in>set calls. \<exists>k. prefix_key (fst x) = Inr k \<and>
         lookup r2 k = Some (data_get_info Leaf k @
           [[PyStr ''ripencc''] @ [PyInt (snd x)], [PyStr ''ripencc''] @ [PyInt (snd x)]])))"
proof -
  have k: "prefix_key (IPv6Address (536939960 * 2 ^ 96), 32) =
      Inr (True # take (nat 32) (addr_bits 128 (536939960 * 2 ^ 96)))" by simp
  have a0: "(0::int) \<le> 167772160" by simp
  have c0: "(0::int) < 3" by simp
  have ac: "(167772160::int) + 3 < 2 ^ 32" by simp
  show ?thesis
    by (rule duplicate_prefix_kept[where ip_address = plain_address and
          prefix_addr = "''10.0.0.0''", OF k plain_address_10 a0 c0 ac])
qed




text \<open>
  Claim C9, as amended. For an IPv6 line whose fifth field is an integer and whose address and
  prefix length the radix tree accepts, the body of the loop makes one call of
  \<^verbatim>\<open>add_prefix_to_radix\<close> on the IPv6 tree, with the prefix built from \<^verbatim>\<open>fields[3]\<close> and
  \<^verbatim>\<open>int(fields[4])\<close> and no decomposition: the node of that prefix gets one more tuple, no other
  node of the IPv6 tree changes and the IPv4 tree is as it was. The tuple has the six fields
  (registry, country, date, status, start, prefix length), of which the first four are the
  ones of the claim.
\<close>

theorem add_fields_ipv6:
  assumes "fields ! 2 = ''ipv6''" "read_int rd (fields ! 4) = Some prefix_size"
    and "read_radix_address rd (fields ! 3) = Some addr"
    and "prefix_key (addr, prefix_size) = Inr k"
    and "prefix_info = [PyStr (fields ! 0), PyStr (fields ! 1), PyStr (fields ! 5),
           PyStr (fields ! 6), PyStr (fields ! 3), PyInt prefix_size]"
  shows "\<exists>v6radix' out'.
           add_fields rd fields v4radix v6radix out = Some (v4radix, v6radix', out', None) \<and>
           add_prefix_to_radix v6radix (addr, prefix_size) prefix_info out = Inr (v6radix', out') \<and>
           lookup v6radix' k = Some (data_get_info v6radix k @ [prefix_info]) \<and>
           (\<forall>k'. k' \<noteq> k \<longrightarrow> lookup v6radix' k' = lookup v6radix k') \<and>
           length prefix_info = 6 \<and>
           take 4 prefix_info =
             [PyStr (fields ! 0), PyStr (fields ! 1), PyStr (fields ! 5), PyStr (fields ! 6)]"
proof -
  define v6radix' where "v6radix' = update v6radix k (data_get_info v6radix k @ [prefix_info])"
  define out' where "out' = (if lookup v6radix k = None then out else out @ [Warning (addr, prefix_size)])"
  have a: "add_prefix_to_radix v6radix (addr, prefix_size) prefix_info out = Inr (v6radix', out')"
    unfolding v6radix'_def out'_def by (rule add_prefix_to_radix_key[OF assms(4)])
  have ne: "''ipv6'' \<noteq> ''ipv4''" by simp
  have f: "add_fields rd fields v4radix v6radix out = Some (v4radix, v6radix', out', None)"
    using assms(1,2,3) a ne unfolding assms(5) by (simp add: add_fields_def)
  have l: "lookup v6radix' k = Some (data_get_info v6radix k @ [prefix_info])"
    by (simp add: v6radix'_def lookup_update)
  have o: "\<forall>k'. k' \<noteq> k \<longrightarrow> lookup v6radix' k' = lookup v6radix k'"
    by (simp add: v6radix'_def lookup_update)
  have n: "length prefix_info = 6" by (simp add: assms(5))
  have t: "take 4 prefix_info =
      [PyStr (fields ! 0), PyStr (fields ! 1), PyStr (fields ! 5), PyStr (fields ! 6)]"
    by (simp add: assms(5))
  from f a l o n t show ?thesis by (intro exI[of _ v6radix'] exI[of _ out'] conjI)
qed

theorem add_fields_ipv6_witness:
  "\<exists>v6radix' out'.
     add_fields plain_reader
       [''ripencc'', ''NL'', ''ipv6'', ''2001:db8::'', ''32'', ''20200101'', ''allocated'']
       Leaf Leaf [] = Some (Leaf, v6radix', out', None) \<and>
     add_prefix_to_radix Leaf (IPv6Address (536939960 * 2 ^ 96), 32)
       [PyStr ''ripencc'', PyStr ''NL'', PyStr ''20200101'', PyStr ''allocated'',
        PyStr ''2001:db8::'', PyInt 32] [] = Inr (v6radix', out') \<and>
     lookup v6radix' (True # take (nat 32) (addr_bits 128 (536939960 * 2 ^ 96))) =
       Some (data_get_info Leaf (True # take (nat 32) (addr_bits 128 (536939960 * 2 ^ 96))) @
         [[PyStr ''ripencc'', PyStr ''NL'', PyStr ''20200101'', PyStr ''allocated'',
           PyStr ''2001:db8::'', PyInt 32]]) \<and>
     (\<forall>k'. k' \<noteq> True # take (nat 32) (addr_bits 128 (536939960 * 2 ^ 96)) \<longrightarrow>
        lookup v6radix' k' = lookup Leaf k') \<and>
     length [PyStr ''ripencc'', PyStr ''NL'', PyStr ''20200101'', PyStr ''allocated'',
        PyStr ''2001:db8::'', PyInt 32] = 6 \<and>
     take 4 [PyStr ''ripencc'', PyStr ''NL'', PyStr ''20200101'', PyStr ''allocated'',
        PyStr ''2001:db8::'', PyInt 32] =
       [PyStr ''ripencc'', PyStr ''NL'', PyStr ''20200101'', PyStr ''allocated'']"
proof -
  have i: "read_int plain_reader ''32'' = Some 32" by code_simp
  have a: "read_radix_address plain_reader ''2001:db8::'' = Some (IPv6Address (536939960 * 2 ^ 96))"
    by (simp add: plain_reader_def plain_address_def)
  have k: "prefix_key (IPv6Address (536939960 * 2 ^ 96), 32) =
      Inr (True # take (nat 32) (addr_bits 128 (536939960 * 2 ^ 96)))" by simp
  show ?thesis
    using add_fields_ipv6[where rd = plain_reader and
        fields = "[''ripencc'', ''NL'', ''ipv6'', ''2001:db8::'', ''32'', ''20200101'', ''allocated'']"
        and prefix_size = 32 and addr = "IPv6Address (536939960 * 2 ^ 96)" and
        k = "True # take (nat 32) (addr_bits 128 (536939960 * 2 ^ 96))" and
        prefix_info = "[PyStr ''ripencc'', PyStr ''NL'', PyStr ''20200101'', PyStr ''allocated'',
          PyStr ''2001:db8::'', PyInt 32]" and v4radix = Leaf and v6radix = Leaf and out = "[]"]
      i a k
    by simp
qed

text \<open>
  Claim C9 as stated fails for the IPv6 line of the spec's scenario: the tuple on the node
  has six fields, not the four of the claim.
\<close>

theorem add_fields_ipv6_counterexample:
  "nodes (fst (snd (the (parse_nro_stats plain_reader
       [''ripencc|NL|ipv6|2001:db8::|32|20200101|allocated''] Leaf Leaf [])))) =
     [((IPv6Address 42540766411282592856903984951653826560, 32),
       [[PyStr ''ripencc'', PyStr ''NL'', PyStr ''20200101'', PyStr ''allocated'',
         PyStr ''2001:db8::'', PyInt 32]])] \<and>
   [PyStr ''ripencc'', PyStr ''NL'', PyStr ''20200101'', PyStr ''allocated'',
     PyStr ''2001:db8::'', PyInt 32] \<noteq>
   [PyStr ''ripencc'', PyStr ''NL'', PyStr ''20200101'', PyStr ''allocated'']"
  by code_simp


lemma all_infos_mono: "all_infos P radix \<Longrightarrow> (\<And>info. P info \<Longrightarrow> Q info) \<Longrightarrow> all_infos Q radix"
  unfolding all_infos_def by blast















lemma rows_example:
  "write_v4 (fst (the (parse_all plain_reader [ripencc_lines, arin_lines] Leaf Leaf []))) =
     Inr [((IPv4Address 167772160, 31),
           [PyStr ''ripencc'', PyStr ''20200101'', PyStr ''NL'', PyStr ''allocated'',
            PyStr ''10.0.0.0'', PyInt 3]),
          ((IPv4Address 167772160, 31),
           [PyStr ''arin'', PyStr ''20100101'', PyStr ''US'', PyStr ''assigned'',
            PyStr ''10.0.0.0'', PyInt 2]),
          ((IPv4Address 167772162, 32),
           [PyStr ''ripencc'', PyStr ''20200101'', PyStr ''NL'', PyStr ''allocated'',
            PyStr ''10.0.0.0'', PyInt 3])]"
  "write_v6 (fst (snd (the (parse_all plain_reader [ripencc_lines, arin_lines] Leaf Leaf [])))) =
     Inr [((IPv6Address 42540766411282592856903984951653826560, 32),
           [PyStr ''ripencc'', PyStr ''20200101'', PyStr ''NL'', PyStr ''allocated''])]"
  by code_simp+





lemma added_append: "added k (xs @ ys) = added k xs @ added k ys"
  by (simp add: added_def)

























lemma dotted_quad_v4: "dotted_quad s = Some addr \<Longrightarrow> \<exists>a. addr = IPv4Address a"
  by (auto simp: dotted_quad_def split: list.splits option.splits if_splits)






end
